theory Spec2Isabelle
  imports Complex_Main "HOL-Library.Log_Nat" "HOL-Library.Word"
begin

section \<open>The editor state of \<open>App.tsx\<close>\<close>

text \<open>
  The \<open>App\<close> component keeps its state in React \<open>useState\<close> cells. The model gathers the
  cells in one record and turns every handler into a function from the state before the
  event to the state after it; each handler is taken as one atomic step (the batched
  \<open>set...\<close> calls of one handler become one record update).
\<close>

text \<open>
  A JavaScript string is a sequence of UTF-16 code units; \<open>str\<close> embeds an ASCII literal.
\<close>

type_synonym jsstring = "nat list"

definition str :: "string \<Rightarrow> jsstring" where
  "str s = map of_char s"

text \<open>A browser \<open>File\<close>: name, MIME type and content bytes.\<close>

datatype image_file = File (file_name: jsstring) (file_type: jsstring) (file_bits: "nat list")

text \<open>The \<open>Tab\<close> union type (App.tsx, line 79).\<close>

datatype tab = Tab_retouch | Tab_ai_edit | Tab_faceswap | Tab_adjust | Tab_filters
  | Tab_crop | Tab_resize | Tab_color

text \<open>\<open>{ x: number, y: number }\<close> of the two hotspot cells.\<close>

record point =
  px :: rat
  py :: rat

text \<open>\<open>Crop\<close> and \<open>PixelCrop\<close> of react-image-crop: a unit and a rectangle.\<close>

datatype crop_unit = Unit_px | Unit_percent

record crop_rect =
  cunit :: crop_unit
  cx :: rat
  cy :: rat
  cwidth :: rat
  cheight :: rat

record color_adjustments =
  brightness :: int
  contrast :: int
  saturation :: int

text \<open>
  What a \<open>catch (err)\<close> clause can receive: an \<open>Error\<close> object with its message, or any
  other value (\<open>err instanceof Error\<close> is false, for instance the \<open>Event\<close> an
  \<open>image.onerror\<close> rejects with).
\<close>

datatype thrown = ErrorObj jsstring | NonError

text \<open>
  The strings handed to \<open>setError\<close>. The literals of the source are Thai text; each literal
  is one constructor here, named after its meaning, and the template strings
  \<open>`<prefix> ${errorMessage}`\<close> of the \<open>catch\<close> clauses are \<open>Failed prefix errorMessage\<close>.
\<close>

datatype failure_prefix =
    GenerateFailed      \<comment> \<open>App.tsx line 272\<close>
  | FilterFailed        \<comment> \<open>lines 294 and 357\<close>
  | RotateFailed        \<comment> \<open>line 399\<close>
  | AdjustFailed        \<comment> \<open>line 421\<close>
  | AiEditFailed        \<comment> \<open>line 443\<close>
  | FaceSwapFailed      \<comment> \<open>line 466\<close>
  | ResizeFailed        \<comment> \<open>line 550\<close>
  | ColorAdjustFailed   \<comment> \<open>line 596\<close>

datatype notice =
    NoImageToEdit       \<comment> \<open>lines 247 and 430\<close>
  | EnterPrompt         \<comment> \<open>line 252\<close>
  | SelectArea          \<comment> \<open>line 257\<close>
  | NoImageForFilter    \<comment> \<open>lines 281 and 303\<close>
  | NoImageToRotate     \<comment> \<open>line 366\<close>
  | NoImageToAdjust     \<comment> \<open>line 408\<close>
  | NeedBothImages      \<comment> \<open>line 452\<close>
  | NoImageToResize     \<comment> \<open>line 519\<close>
  | NoImageToColorAdjust \<comment> \<open>line 559\<close>
  | Failed failure_prefix jsstring

record app_state =
  history :: "image_file list"
  historyIndex :: int
  prompt :: jsstring
  isLoading :: bool
  isUiReady :: bool
  error :: "notice option"
  editHotspot :: "point option"
  displayHotspot :: "point option"
  activeTab :: tab
  secondaryImage :: "image_file option"
  crop :: "crop_rect option"
  completedCrop :: "crop_rect option"
  aspect :: "rat option"
  isComparingModeActive :: bool
  imageDimensions :: "(nat \<times> nat) option"
  colorAdjustments :: color_adjustments

definition defaultAdjustments :: color_adjustments where
  "defaultAdjustments = \<lparr>brightness = 100, contrast = 100, saturation = 100\<rparr>"

text \<open>The initial values of the \<open>useState\<close> calls (lines 93--113).\<close>

definition initialState :: app_state where
  "initialState =
     \<lparr>history = [], historyIndex = - 1, prompt = [], isLoading = False, isUiReady = True,
      error = None, editHotspot = None, displayHotspot = None, activeTab = Tab_retouch,
      secondaryImage = None, crop = None, completedCrop = None, aspect = None,
      isComparingModeActive = False, imageDimensions = None,
      colorAdjustments = defaultAdjustments\<rparr>"

subsection \<open>Reading the history\<close>

text \<open>
  \<open>history[i] ?? null\<close>: an index outside the array (also \<open>-1\<close>) reads \<open>undefined\<close>,
  which \<open>??\<close> turns into \<open>null\<close>.
\<close>

definition at_index :: "'a list \<Rightarrow> int \<Rightarrow> 'a option" where
  "at_index xs i = (if 0 \<le> i \<and> i < int (length xs) then Some (xs ! nat i) else None)"

definition currentImage :: "app_state \<Rightarrow> image_file option" where
  "currentImage s = at_index (history s) (historyIndex s)"

definition originalImage :: "app_state \<Rightarrow> image_file option" where
  "originalImage s = at_index (history s) 0"

definition canUndo :: "app_state \<Rightarrow> bool" where
  "canUndo s = (historyIndex s > 0)"

definition canRedo :: "app_state \<Rightarrow> bool" where
  "canRedo s = (historyIndex s < int (length (history s)) - 1)"

text \<open>
  \<open>Array.prototype.slice(0, end)\<close>: a negative \<open>end\<close> counts from the end of the array and
  the result is cut at the array's bounds.
\<close>

definition slice0 :: "'a list \<Rightarrow> int \<Rightarrow> 'a list" where
  "slice0 xs e =
     (let len = int (length xs);
          final = (if e < 0 then max (len + e) 0 else min e len)
      in take (nat final) xs)"

subsection \<open>History handlers\<close>

definition resetTransientStates :: "app_state \<Rightarrow> app_state" where
  "resetTransientStates s =
     s\<lparr>editHotspot := None, displayHotspot := None, crop := None, completedCrop := None,
       secondaryImage := None, colorAdjustments := defaultAdjustments,
       isComparingModeActive := False\<rparr>"

definition addImageToHistory :: "image_file \<Rightarrow> app_state \<Rightarrow> app_state" where
  "addImageToHistory newImageFile s =
     (let newHistory = slice0 (history s) (historyIndex s + 1) @ [newImageFile]
      in s\<lparr>isUiReady := False, history := newHistory,
            historyIndex := int (length newHistory) - 1,
            crop := None, completedCrop := None, secondaryImage := None,
            colorAdjustments := defaultAdjustments, isComparingModeActive := False\<rparr>)"

definition handleUndo :: "app_state \<Rightarrow> app_state" where
  "handleUndo s =
     (if canUndo s
      then resetTransientStates (s\<lparr>isUiReady := False, historyIndex := historyIndex s - 1\<rparr>)
      else s)"

definition handleRedo :: "app_state \<Rightarrow> app_state" where
  "handleRedo s =
     (if canRedo s
      then resetTransientStates (s\<lparr>isUiReady := False, historyIndex := historyIndex s + 1\<rparr>)
      else s)"

definition handleImageUpload :: "image_file \<Rightarrow> app_state \<Rightarrow> app_state" where
  "handleImageUpload f s =
     resetTransientStates
       (s\<lparr>isUiReady := False, error := None, history := [f], historyIndex := 0,
          activeTab := Tab_retouch\<rparr>)"

definition handleReset :: "app_state \<Rightarrow> app_state" where
  "handleReset s =
     (if length (history s) > 0
      then resetTransientStates (s\<lparr>isUiReady := False, historyIndex := 0, error := None\<rparr>)
      else s)"

definition handleUploadNew :: "app_state \<Rightarrow> app_state" where
  "handleUploadNew s =
     resetTransientStates (s\<lparr>history := [], historyIndex := - 1, error := None, prompt := []\<rparr>)"

text \<open>\<open>commits fs s\<close>: the versions \<open>fs\<close> committed one after the other, oldest first.\<close>

definition commits :: "image_file list \<Rightarrow> app_state \<Rightarrow> app_state" where
  "commits fs s = foldl (\<lambda>st f. addImageToHistory f st) s fs"

subsection \<open>Edit handlers\<close>

text \<open>
  \<open>String.prototype.trim\<close> removes the code units of the ECMAScript productions
  \<open>WhiteSpace\<close> and \<open>LineTerminator\<close> from both ends.
\<close>

definition isWhiteSpace :: "nat \<Rightarrow> bool" where
  "isWhiteSpace c =
     (c \<in> set [9, 10, 11, 12, 13, 32, 160, 5760, 8232, 8233, 8239, 8287, 12288, 65279]
      \<or> (8192 \<le> c \<and> c \<le> 8202))"

definition trim :: "jsstring \<Rightarrow> jsstring" where
  "trim s = rev (dropWhile isWhiteSpace (rev (dropWhile isWhiteSpace s)))"

text \<open>
  Every edit handler runs the same block: \<open>setIsLoading(true); setError(null); try { ...
  addImageToHistory(newImageFile) } catch (err) { setError(...) } finally {
  setIsLoading(false) }\<close>. What stands between \<open>try {\<close> and \<open>addImageToHistory\<close> is
  awaited browser and service code (the request to the generative service, image decoding,
  canvas drawing, \<open>dataURLtoFile\<close>); its only effect on the state is the file it yields or
  the value it throws. The model takes these results from a queue of pending outcomes, one
  per run of a \<open>try\<close> body, so that a second attempt would show as a second outcome taken.
  An empty queue is a body that never settles: the handler stays loading.
\<close>

type_synonym outcome = "thrown + image_file"

text \<open>\<open>err instanceof Error ? err.message : 'An unknown error occurred.'\<close>\<close>

definition errorMessage :: "thrown \<Rightarrow> jsstring" where
  "errorMessage err = (case err of ErrorObj m \<Rightarrow> m | NonError \<Rightarrow> str ''An unknown error occurred.'')"

definition runEdit ::
  "failure_prefix \<Rightarrow> (app_state \<Rightarrow> app_state) \<Rightarrow> app_state \<Rightarrow> outcome list
     \<Rightarrow> app_state \<times> outcome list" where
  "runEdit prefix afterCommit s q =
     (let s1 = s\<lparr>isLoading := True, error := None\<rparr>
      in case q of
           [] \<Rightarrow> (s1, [])
         | r # q' \<Rightarrow>
             (case r of
                Inr newImageFile \<Rightarrow>
                  ((afterCommit (addImageToHistory newImageFile s1))\<lparr>isLoading := False\<rparr>, q')
              | Inl err \<Rightarrow>
                  (s1\<lparr>error := Some (Failed prefix (errorMessage err)), isLoading := False\<rparr>, q')))"

definition handleGenerate :: "app_state \<Rightarrow> outcome list \<Rightarrow> app_state \<times> outcome list" where
  "handleGenerate s q =
     (if currentImage s = None then (s\<lparr>error := Some NoImageToEdit\<rparr>, q)
      else if trim (prompt s) = [] then (s\<lparr>error := Some EnterPrompt\<rparr>, q)
      else if editHotspot s = None then (s\<lparr>error := Some SelectArea\<rparr>, q)
      else runEdit GenerateFailed (\<lambda>t. t\<lparr>editHotspot := None, displayHotspot := None\<rparr>) s q)"

text \<open>
  The arguments the remaining handlers pass on to the service or the canvas (a filter
  prompt, a target size) do not reach the state and are left out.
\<close>

definition handleApplyFilter :: "app_state \<Rightarrow> outcome list \<Rightarrow> app_state \<times> outcome list" where
  "handleApplyFilter s q =
     (if currentImage s = None then (s\<lparr>error := Some NoImageForFilter\<rparr>, q)
      else runEdit FilterFailed (\<lambda>t. t) s q)"

definition applyCanvasFilter :: "app_state \<Rightarrow> outcome list \<Rightarrow> app_state \<times> outcome list" where
  "applyCanvasFilter s q =
     (if currentImage s = None then (s\<lparr>error := Some NoImageForFilter\<rparr>, q)
      else runEdit FilterFailed (\<lambda>t. t) s q)"

definition handleRotate :: "app_state \<Rightarrow> outcome list \<Rightarrow> app_state \<times> outcome list" where
  "handleRotate s q =
     (if currentImage s = None then (s\<lparr>error := Some NoImageToRotate\<rparr>, q)
      else runEdit RotateFailed (\<lambda>t. t) s q)"

definition handleApplyAdjustment :: "app_state \<Rightarrow> outcome list \<Rightarrow> app_state \<times> outcome list" where
  "handleApplyAdjustment s q =
     (if currentImage s = None then (s\<lparr>error := Some NoImageToAdjust\<rparr>, q)
      else runEdit AdjustFailed (\<lambda>t. t) s q)"

definition handleApplyAiEdit :: "app_state \<Rightarrow> outcome list \<Rightarrow> app_state \<times> outcome list" where
  "handleApplyAiEdit s q =
     (if currentImage s = None then (s\<lparr>error := Some NoImageToEdit\<rparr>, q)
      else runEdit AiEditFailed (\<lambda>t. t) s q)"

definition handleApplyFaceSwap :: "app_state \<Rightarrow> outcome list \<Rightarrow> app_state \<times> outcome list" where
  "handleApplyFaceSwap s q =
     (if currentImage s = None \<or> secondaryImage s = None
      then (s\<lparr>error := Some NeedBothImages\<rparr>, q)
      else runEdit FaceSwapFailed (\<lambda>t. t) s q)"

definition handleApplyResize :: "app_state \<Rightarrow> outcome list \<Rightarrow> app_state \<times> outcome list" where
  "handleApplyResize s q =
     (if currentImage s = None then (s\<lparr>error := Some NoImageToResize\<rparr>, q)
      else runEdit ResizeFailed (\<lambda>t. t) s q)"

definition handleApplyColorAdjustments ::
  "app_state \<Rightarrow> outcome list \<Rightarrow> app_state \<times> outcome list" where
  "handleApplyColorAdjustments s q =
     (if currentImage s = None then (s\<lparr>error := Some NoImageToColorAdjust\<rparr>, q)
      else if brightness (colorAdjustments s) = 100 \<and> contrast (colorAdjustments s) = 100
              \<and> saturation (colorAdjustments s) = 100
      then (s, q)
      else runEdit ColorAdjustFailed (\<lambda>t. t) s q)"

text \<open>The edit operations that run the \<open>try\<close>/\<open>catch\<close> block, by name.\<close>

datatype edit_op = OpGenerate | OpApplyFilter | OpCanvasFilter | OpRotate | OpApplyAdjustment
  | OpApplyAiEdit | OpApplyFaceSwap | OpApplyResize | OpApplyColorAdjustments

fun runOp :: "edit_op \<Rightarrow> app_state \<Rightarrow> outcome list \<Rightarrow> app_state \<times> outcome list" where
  "runOp OpGenerate = handleGenerate"
| "runOp OpApplyFilter = handleApplyFilter"
| "runOp OpCanvasFilter = applyCanvasFilter"
| "runOp OpRotate = handleRotate"
| "runOp OpApplyAdjustment = handleApplyAdjustment"
| "runOp OpApplyAiEdit = handleApplyAiEdit"
| "runOp OpApplyFaceSwap = handleApplyFaceSwap"
| "runOp OpApplyResize = handleApplyResize"
| "runOp OpApplyColorAdjustments = handleApplyColorAdjustments"

text \<open>
  \<open>reachesBody op s\<close>: the guards before \<open>setIsLoading(true)\<close> let the handler through, so
  the \<open>try\<close> body runs.
\<close>

fun reachesBody :: "edit_op \<Rightarrow> app_state \<Rightarrow> bool" where
  "reachesBody OpGenerate s =
     (currentImage s \<noteq> None \<and> trim (prompt s) \<noteq> [] \<and> editHotspot s \<noteq> None)"
| "reachesBody OpApplyFaceSwap s = (currentImage s \<noteq> None \<and> secondaryImage s \<noteq> None)"
| "reachesBody OpApplyColorAdjustments s =
     (currentImage s \<noteq> None \<and>
      \<not> (brightness (colorAdjustments s) = 100 \<and> contrast (colorAdjustments s) = 100
         \<and> saturation (colorAdjustments s) = 100))"
| "reachesBody _ s = (currentImage s \<noteq> None)"

fun failurePrefix :: "edit_op \<Rightarrow> failure_prefix" where
  "failurePrefix OpGenerate = GenerateFailed"
| "failurePrefix OpApplyFilter = FilterFailed"
| "failurePrefix OpCanvasFilter = FilterFailed"
| "failurePrefix OpRotate = RotateFailed"
| "failurePrefix OpApplyAdjustment = AdjustFailed"
| "failurePrefix OpApplyAiEdit = AiEditFailed"
| "failurePrefix OpApplyFaceSwap = FaceSwapFailed"
| "failurePrefix OpApplyResize = ResizeFailed"
| "failurePrefix OpApplyColorAdjustments = ColorAdjustFailed"

subsection \<open>The remaining handlers and the error toast\<close>

definition handleTabChange :: "tab \<Rightarrow> app_state \<Rightarrow> app_state" where
  "handleTabChange t s = s\<lparr>isComparingModeActive := False, activeTab := t\<rparr>"

text \<open>
  \<open>handleImageClick\<close>: \<open>display\<close> is the click offset inside the image element and \<open>edit\<close>
  the same point scaled to the natural resolution and rounded; both are computed from
  browser geometry and taken as given.
\<close>

definition handleImageClick :: "point \<Rightarrow> point \<Rightarrow> app_state \<Rightarrow> app_state" where
  "handleImageClick display edit s =
     (if activeTab s \<noteq> Tab_retouch \<or> \<not> isUiReady s then s
      else s\<lparr>displayHotspot := Some display, editHotspot := Some edit\<rparr>)"

definition handleSecondaryImageUpload :: "image_file \<Rightarrow> app_state \<Rightarrow> app_state" where
  "handleSecondaryImageUpload f s = s\<lparr>secondaryImage := Some f\<rparr>"

definition handleClearSecondaryImage :: "app_state \<Rightarrow> app_state" where
  "handleClearSecondaryImage s = s\<lparr>secondaryImage := None\<rparr>"

text \<open>
  The effect at lines 146--154: once an image is displayed, a 500 ms timer sets
  \<open>isUiReady\<close> again. The model has the timer's callback as an event of its own.
\<close>

definition uiReadyTimer :: "app_state \<Rightarrow> app_state" where
  "uiReadyTimer s = (if currentImage s \<noteq> None then s\<lparr>isUiReady := True\<rparr> else s)"

text \<open>
  \<open>ErrorToast\<close> (lines 46--76) is rendered while \<open>error\<close> is not null. It shows the
  message, starts a timer that calls \<open>onDismiss\<close>, and has a button that calls \<open>onDismiss\<close>;
  \<open>onDismiss\<close> is \<open>() => setError(null)\<close> (line 887). The delay is kept as data: the
  model has no clock.
\<close>

record toast =
  message :: notice
  autoDismissMs :: nat
  dismissible :: bool

definition ErrorToast :: "notice \<Rightarrow> toast" where
  "ErrorToast m = \<lparr>message = m, autoDismissMs = 5000, dismissible = True\<rparr>"

definition renderToast :: "app_state \<Rightarrow> toast option" where
  "renderToast s = map_option ErrorToast (error s)"

definition onDismiss :: "app_state \<Rightarrow> app_state" where
  "onDismiss s = s\<lparr>error := None\<rparr>"

subsection \<open>Events\<close>

datatype event =
    Upload image_file
  | Commit image_file
  | Undo
  | Redo
  | Reset
  | UploadNew
  | Edit edit_op "outcome list"
  | TabChange tab
  | ImageClick point point
  | SetPrompt jsstring
  | SetColorAdjustments color_adjustments
  | SecondaryImageUpload image_file
  | ClearSecondaryImage
  | UiReadyTimer
  | Dismiss

fun step :: "app_state \<Rightarrow> event \<Rightarrow> app_state" where
  "step s (Upload f) = handleImageUpload f s"
| "step s (Commit f) = addImageToHistory f s"
| "step s Undo = handleUndo s"
| "step s Redo = handleRedo s"
| "step s Reset = handleReset s"
| "step s UploadNew = handleUploadNew s"
| "step s (Edit op q) = fst (runOp op s q)"
| "step s (TabChange t) = handleTabChange t s"
| "step s (ImageClick d e) = handleImageClick d e s"
| "step s (SetPrompt p) = s\<lparr>prompt := p\<rparr>"
| "step s (SetColorAdjustments c) = s\<lparr>colorAdjustments := c\<rparr>"
| "step s (SecondaryImageUpload f) = handleSecondaryImageUpload f s"
| "step s ClearSecondaryImage = handleClearSecondaryImage s"
| "step s UiReadyTimer = uiReadyTimer s"
| "step s Dismiss = onDismiss s"

text \<open>The states the editor can be in: the initial state and whatever events lead to.\<close>

inductive reachable :: "app_state \<Rightarrow> bool" where
  reachable_initial: "reachable initialState"
| reachable_step: "reachable s \<Longrightarrow> reachable (step s e)"

definition run :: "event list \<Rightarrow> app_state" where
  "run evs = foldl step initialState evs"

text \<open>The data-model invariant of the version history.\<close>

definition historyInvariant :: "app_state \<Rightarrow> bool" where
  "historyInvariant s =
     (if history s = [] then historyIndex s = - 1
      else 0 \<le> historyIndex s \<and> historyIndex s \<le> int (length (history s)) - 1)"

subsection \<open>Transient edit state\<close>



subsection \<open>Sample data\<close>

definition png0 :: image_file where "png0 = File (str ''a.png'') (str ''image/png'') [0]"
definition png1 :: image_file where "png1 = File (str ''b.png'') (str ''image/png'') [1]"
definition png2 :: image_file where "png2 = File (str ''c.png'') (str ''image/png'') [2]"
definition png3 :: image_file where "png3 = File (str ''d.png'') (str ''image/png'') [3]"

definition clickShown :: point where "clickShown = \<lparr>px = 10, py = 20\<rparr>"
definition clickNatural :: point where "clickNatural = \<lparr>px = 40, py = 80\<rparr>"

text \<open>
  A session in the middle of its history with a retouch ready to be sent: three versions,
  one undo, a click on the image, a prompt and a secondary image.
\<close>

definition retouchReady :: "event list" where
  "retouchReady =
     [Upload png0, Commit png1, Commit png2, Undo, UiReadyTimer,
      ImageClick clickShown clickNatural, SetPrompt (str ''remove the lamp''),
      SecondaryImageUpload png3]"

subsection \<open>Edits in flight and the keyboard shortcuts\<close>

text \<open>
  An edit handler is asynchronous: it runs up to its \<open>await\<close>, other events are handled
  while the request is pending, and the rest of the \<open>try\<close> block runs when the request
  settles. The \<open>addImageToHistory\<close> it then calls is the closure of the render in which the
  handler was called (\<open>useCallback\<close> with the dependencies \<open>history\<close> and \<open>historyIndex\<close>,
  lines 169--181): it reads the \<open>history\<close> and \<open>historyIndex\<close> of that moment, not those of
  the moment the request settles. \<open>in_flight\<close> is what the closure holds.
\<close>

record in_flight =
  flightOp :: edit_op
  capturedHistory :: "image_file list"
  capturedHistoryIndex :: int

text \<open>
  The handler up to its \<open>await\<close>. A handler stopped by one of its guards only sets its
  message (as \<open>runOp\<close> does without taking an outcome) and leaves nothing in flight.
\<close>

definition startEdit :: "edit_op \<Rightarrow> app_state \<Rightarrow> app_state \<times> in_flight option" where
  "startEdit op s =
     (if reachesBody op s
      then (s\<lparr>isLoading := True, error := None\<rparr>,
            Some \<lparr>flightOp = op, capturedHistory = history s,
                  capturedHistoryIndex = historyIndex s\<rparr>)
      else (fst (runOp op s []), None))"

text \<open>The body of \<open>addImageToHistory\<close> on the captured \<open>history\<close> and \<open>historyIndex\<close>.\<close>

definition addImageToHistoryCaptured ::
  "image_file list \<Rightarrow> int \<Rightarrow> image_file \<Rightarrow> app_state \<Rightarrow> app_state" where
  "addImageToHistoryCaptured capHistory capIndex newImageFile s =
     (let newHistory = slice0 capHistory (capIndex + 1) @ [newImageFile]
      in s\<lparr>isUiReady := False, history := newHistory,
            historyIndex := int (length newHistory) - 1,
            crop := None, completedCrop := None, secondaryImage := None,
            colorAdjustments := defaultAdjustments, isComparingModeActive := False\<rparr>)"

text \<open>
  The rest of the handler, run on the state of the moment the request settles with outcome
  \<open>r\<close>: the commit (and for the retouch edit the clearing of the hotspots) or the \<open>catch\<close>
  clause, then \<open>finally\<close>.
\<close>

definition settleEdit :: "in_flight \<Rightarrow> outcome \<Rightarrow> app_state \<Rightarrow> app_state" where
  "settleEdit flight r s =
     (case r of
        Inr newImageFile \<Rightarrow>
          (let s1 = addImageToHistoryCaptured (capturedHistory flight) (capturedHistoryIndex flight)
                      newImageFile s;
               s2 = (if flightOp flight = OpGenerate
                     then s1\<lparr>editHotspot := None, displayHotspot := None\<rparr> else s1)
           in s2\<lparr>isLoading := False\<rparr>)
      | Inl err \<Rightarrow>
          s\<lparr>error := Some (Failed (failurePrefix (flightOp flight)) (errorMessage err)),
            isLoading := False\<rparr>)"

text \<open>
  The \<open>keydown\<close> listener (lines 201--222). Of the event it reads the tag of the target, the
  two modifier flags and the key. \<open>toLowerCase\<close> is modelled on the letters A--Z; no other
  character becomes \<open>z\<close> or \<open>y\<close> in lower case.
\<close>

record key_event =
  targetTagName :: jsstring
  metaKey :: bool
  ctrlKey :: bool
  key :: jsstring

definition toLowerCase :: "jsstring \<Rightarrow> jsstring" where
  "toLowerCase s = map (\<lambda>c. if 65 \<le> c \<and> c \<le> 90 then c + 32 else c) s"

definition handleKeyDown :: "key_event \<Rightarrow> app_state \<Rightarrow> app_state" where
  "handleKeyDown event s =
     (if targetTagName event = str ''INPUT'' \<or> targetTagName event = str ''TEXTAREA'' then s
      else if metaKey event \<or> ctrlKey event
      then (if toLowerCase (key event) = str ''z'' then handleUndo s
            else if toLowerCase (key event) = str ''y'' then handleRedo s
            else s)
      else s)"

text \<open>The \<open>disabled\<close> attributes of the undo, redo and rotate buttons (lines 764, 774, 786).\<close>

definition undoButtonDisabled :: "app_state \<Rightarrow> bool" where
  "undoButtonDisabled s = (\<not> canUndo s \<or> isLoading s \<or> \<not> isUiReady s)"

definition redoButtonDisabled :: "app_state \<Rightarrow> bool" where
  "redoButtonDisabled s = (\<not> canRedo s \<or> isLoading s \<or> \<not> isUiReady s)"

definition rotateButtonDisabled :: "app_state \<Rightarrow> bool" where
  "rotateButtonDisabled s = (isLoading s \<or> \<not> isUiReady s)"

text \<open>
  A session with three versions, the last one displayed and the panels ready; Ctrl+Z pressed
  outside any input field.
\<close>

definition threeVersions :: app_state where
  "threeVersions = run [Upload png0, Commit png1, Commit png2, UiReadyTimer]"

definition ctrlZ :: key_event where
  "ctrlZ = \<lparr>targetTagName = str ''BODY'', metaKey = False, ctrlKey = True, key = str ''z''\<rparr>"

section \<open>The service response (\<open>services/geminiService.ts\<close>)\<close>

text \<open>
  The fields of \<open>GenerateContentResponse\<close> that \<open>handleApiResponse\<close> reads. Every field of the
  SDK's types is optional; \<open>None\<close> is \<open>undefined\<close>. \<open>responseText\<close> is the value of the SDK's
  \<open>text\<close> getter, which is not code of this repository.
\<close>

record inline_data =
  mimeType :: "jsstring option"
  inlineBytes :: "jsstring option"   \<comment> \<open>the field \<open>data\<close>: base64 text\<close>

record part =
  inlineData :: "inline_data option"
  partText :: "jsstring option"

record candidate =
  contentParts :: "part list option option"   \<comment> \<open>\<open>content\<close>, and inside it \<open>parts\<close>\<close>
  finishReason :: "jsstring option"

record prompt_feedback =
  blockReason :: "jsstring option"
  blockReasonMessage :: "jsstring option"

record response =
  promptFeedback :: "prompt_feedback option"
  candidates :: "candidate list option"
  responseText :: "jsstring option"

text \<open>A string in a condition: \<open>undefined\<close> and the empty string are falsy.\<close>

definition truthy :: "jsstring option \<Rightarrow> bool" where
  "truthy v = (case v of None \<Rightarrow> False | Some s \<Rightarrow> s \<noteq> [])"

text \<open>\<open>${v}\<close> in a template literal: \<open>undefined\<close> prints as the word.\<close>

definition interp :: "jsstring option \<Rightarrow> jsstring" where
  "interp v = (case v of None \<Rightarrow> str ''undefined'' | Some s \<Rightarrow> s)"

text \<open>\<open>v || ''\<close>\<close>

definition orEmpty :: "jsstring option \<Rightarrow> jsstring" where
  "orEmpty v = (if truthy v then interp v else [])"

text \<open>\<open>response.candidates?.[0]\<close>\<close>

definition firstCandidate :: "response \<Rightarrow> candidate option" where
  "firstCandidate r =
     (case candidates r of None \<Rightarrow> None | Some [] \<Rightarrow> None | Some (c # _) \<Rightarrow> Some c)"

text \<open>
  \<open>response.candidates?.[0]?.content?.parts\<close>, with the empty list where the chain yields
  \<open>undefined\<close> (\<open>?.find\<close> finds nothing in either).
\<close>

definition responseParts :: "response \<Rightarrow> part list" where
  "responseParts r =
     (case firstCandidate r of
        None \<Rightarrow> []
      | Some c \<Rightarrow> (case contentParts c of Some (Some ps) \<Rightarrow> ps | _ \<Rightarrow> []))"

text \<open>\<open>response.promptFeedback?.blockReason\<close>\<close>

definition promptBlockReason :: "response \<Rightarrow> jsstring option" where
  "promptBlockReason r = (case promptFeedback r of None \<Rightarrow> None | Some pf \<Rightarrow> blockReason pf)"

definition dataUrl :: "inline_data \<Rightarrow> jsstring" where
  "dataUrl d = str ''data:'' @ interp (mimeType d) @ str '';base64,'' @ interp (inlineBytes d)"

text \<open>\<open>response.candidates?.[0]?.finishReason\<close>\<close>

definition responseFinishReason :: "response \<Rightarrow> jsstring option" where
  "responseFinishReason r =
     (case firstCandidate r of None \<Rightarrow> None | Some c \<Rightarrow> finishReason c)"

text \<open>The three messages \<open>handleApiResponse\<close> throws.\<close>

definition blockedMessage :: "jsstring option \<Rightarrow> jsstring option \<Rightarrow> jsstring" where
  "blockedMessage reason reasonMessage =
     str ''Request was blocked. Reason: '' @ interp reason @ str ''. '' @ orEmpty reasonMessage"

definition stoppedMessage :: "jsstring \<Rightarrow> jsstring option \<Rightarrow> jsstring" where
  "stoppedMessage context reason =
     str ''Image generation for '' @ context @ str '' stopped unexpectedly. Reason: ''
     @ interp reason @ str ''. This often relates to safety settings.''"

definition noImageMessage :: "jsstring \<Rightarrow> jsstring option \<Rightarrow> jsstring" where
  "noImageMessage context textFeedback =
     str ''The AI model did not return an image for the '' @ context @ str ''. ''
     @ (if truthy textFeedback
        then str ''The model responded with text: '' @ [34] @ interp textFeedback @ [34]
        else str (''This can happen due to safety filters or if the request is too complex. ''
                  @ ''Please try rephrasing your prompt to be more direct.''))"

definition handleApiResponse :: "response \<Rightarrow> jsstring \<Rightarrow> thrown + jsstring" where
  "handleApiResponse r context =
     (if truthy (promptBlockReason r)
      then Inl (ErrorObj
             (blockedMessage (promptBlockReason r)
                (case promptFeedback r of None \<Rightarrow> None | Some pf \<Rightarrow> blockReasonMessage pf)))
      else
        (case (case find (\<lambda>p. inlineData p \<noteq> None) (responseParts r) of
                 None \<Rightarrow> None
               | Some imagePartFromResponse \<Rightarrow> inlineData imagePartFromResponse) of
           Some d \<Rightarrow> Inr (dataUrl d)
         | None \<Rightarrow>
             (if truthy (responseFinishReason r) \<and> responseFinishReason r \<noteq> Some (str ''STOP'')
              then Inl (ErrorObj (stoppedMessage context (responseFinishReason r)))
              else Inl (ErrorObj (noImageMessage context (map_option trim (responseText r)))))))"

subsection \<open>Sample responses\<close>

definition pngPart :: part where
  "pngPart = \<lparr>inlineData = Some \<lparr>mimeType = Some (str ''image/png''),
                 inlineBytes = Some (str ''iVBORw0KGgo='')\<rparr>, partText = None\<rparr>"

definition textPart :: part where
  "textPart = \<lparr>inlineData = None, partText = Some (str ''Here is your image'')\<rparr>"

definition imageResponse :: response where
  "imageResponse =
     \<lparr>promptFeedback = None,
      candidates = Some [\<lparr>contentParts = Some (Some [textPart, pngPart]),
                          finishReason = Some (str ''STOP'')\<rparr>],
      responseText = Some (str ''Here is your image'')\<rparr>"

definition blockedResponse :: response where
  "blockedResponse =
     \<lparr>promptFeedback = Some \<lparr>blockReason = Some (str ''SAFETY''), blockReasonMessage = None\<rparr>,
      candidates = None, responseText = None\<rparr>"

definition stoppedResponse :: response where
  "stoppedResponse =
     \<lparr>promptFeedback = None,
      candidates = Some [\<lparr>contentParts = None, finishReason = Some (str ''IMAGE_SAFETY'')\<rparr>],
      responseText = None\<rparr>"

definition refusalResponse :: response where
  "refusalResponse =
     \<lparr>promptFeedback = None,
      candidates = Some [\<lparr>contentParts = Some (Some [textPart]),
                          finishReason = Some (str ''STOP'')\<rparr>],
      responseText = Some (str '' I cannot do that. '')\<rparr>"

section \<open>Numbers\<close>

text \<open>
  A JavaScript number is an IEEE 754 binary64 value. The numbers of this program are finite,
  and the model takes a number to be the rational it denotes. Every arithmetic operation
  computes the exact result and rounds it to the nearest binary64 value, ties to the even
  significand; \<open>fl\<close> is that rounding. (\<open>fl\<close> is the rounding of the normal range,
  \<open>2\<^sup>-\<^sup>1\<^sup>0\<^sup>2\<^sup>2 \<le> \<bar>x\<bar> < 2\<^sup>1\<^sup>0\<^sup>2\<^sup>4\<close>; no operand or result of the program's arithmetic on pixel values
  or on image sizes leaves it.)
\<close>

text \<open>The binary exponent \<open>e\<close> of \<open>x \<noteq> 0\<close>: \<open>2\<^sup>e \<le> \<bar>x\<bar> < 2\<^sup>e\<^sup>+\<^sup>1\<close>.\<close>

definition bexp :: "rat \<Rightarrow> int" where
  "bexp x =
     (let (p, q) = quotient_of \<bar>x\<bar>; d = bitlen p - bitlen q
      in if 2 powi d \<le> \<bar>x\<bar> then d else d - 1)"

definition roundHalfEven :: "rat \<Rightarrow> int" where
  "roundHalfEven x =
     (let f = \<lfloor>x\<rfloor>
      in if of_int f + 1 / 2 < x then f + 1
         else if x < of_int f + 1 / 2 then f
         else if even f then f else f + 1)"

definition fl :: "rat \<Rightarrow> rat" where
  "fl x =
     (if x = 0 then 0
      else (let e = bexp x - 52 in of_int (roundHalfEven (x / 2 powi e)) * 2 powi e))"

definition fadd :: "rat \<Rightarrow> rat \<Rightarrow> rat" where
  "fadd a b = fl (a + b)"

definition fmul :: "rat \<Rightarrow> rat \<Rightarrow> rat" where
  "fmul a b = fl (a * b)"

text \<open>\<open>a / b\<close> for \<open>b \<noteq> 0\<close>.\<close>

definition fdiv :: "rat \<Rightarrow> rat \<Rightarrow> rat" where
  "fdiv a b = fl (a / b)"

text \<open>\<open>Math.round\<close>: the nearest integer, a tie going up.\<close>

definition mathRound :: "rat \<Rightarrow> int" where
  "mathRound x = \<lfloor>x + 1 / 2\<rfloor>"

text \<open>
  Storing a number into a \<open>Uint8ClampedArray\<close> (\<open>ToUint8Clamp\<close>): clamp to \<open>0 .. 255\<close>, then
  round to the nearest integer, a tie going to the even one.
\<close>

definition toUint8Clamp :: "rat \<Rightarrow> 8 word" where
  "toUint8Clamp x =
     (if x \<le> 0 then 0 else if 255 \<le> x then 255 else word_of_int (roundHalfEven x))"

text \<open>Reading an element of the array gives its value as a number.\<close>

definition byteValue :: "8 word \<Rightarrow> rat" where
  "byteValue w = of_nat (unat w)"

section \<open>The client-side filters (\<open>applyCanvasFilter\<close>, lines 330--348)\<close>

datatype canvas_filterer = Grayscale | Sepia

text \<open>The body of the loop for one pixel: the new values of \<open>data[i]\<close>, \<open>data[i+1]\<close>, \<open>data[i+2]\<close>.\<close>

definition grayscaleChannels :: "8 word \<Rightarrow> 8 word \<Rightarrow> 8 word \<Rightarrow> 8 word \<times> 8 word \<times> 8 word" where
  "grayscaleChannels r g b =
     (let gray = fdiv (fadd (fadd (byteValue r) (byteValue g)) (byteValue b)) 3
      in (toUint8Clamp gray, toUint8Clamp gray, toUint8Clamp gray))"

definition sepiaR :: "8 word \<Rightarrow> 8 word \<Rightarrow> 8 word \<Rightarrow> rat" where
  "sepiaR r g b =
     min 255 (fadd (fadd (fmul (byteValue r) (fl (393 / 1000))) (fmul (byteValue g) (fl (769 / 1000))))
                   (fmul (byteValue b) (fl (189 / 1000))))"

definition sepiaG :: "8 word \<Rightarrow> 8 word \<Rightarrow> 8 word \<Rightarrow> rat" where
  "sepiaG r g b =
     min 255 (fadd (fadd (fmul (byteValue r) (fl (349 / 1000))) (fmul (byteValue g) (fl (686 / 1000))))
                   (fmul (byteValue b) (fl (168 / 1000))))"

definition sepiaB :: "8 word \<Rightarrow> 8 word \<Rightarrow> 8 word \<Rightarrow> rat" where
  "sepiaB r g b =
     min 255 (fadd (fadd (fmul (byteValue r) (fl (272 / 1000))) (fmul (byteValue g) (fl (534 / 1000))))
                   (fmul (byteValue b) (fl (131 / 1000))))"

definition sepiaChannels :: "8 word \<Rightarrow> 8 word \<Rightarrow> 8 word \<Rightarrow> 8 word \<times> 8 word \<times> 8 word" where
  "sepiaChannels r g b =
     (toUint8Clamp (sepiaR r g b), toUint8Clamp (sepiaG r g b), toUint8Clamp (sepiaB r g b))"

definition filterChannels ::
  "canvas_filterer \<Rightarrow> 8 word \<Rightarrow> 8 word \<Rightarrow> 8 word \<Rightarrow> 8 word \<times> 8 word \<times> 8 word" where
  "filterChannels filt r g b =
     (case filt of Grayscale \<Rightarrow> grayscaleChannels r g b | Sepia \<Rightarrow> sepiaChannels r g b)"

text \<open>
  The loop \<open>for (let i = 0; i < data.length; i += 4)\<close> over the flat RGBA array. The data of
  an \<open>ImageData\<close> has four elements per pixel. (On a rest of fewer than four elements the
  reads beyond the end give \<open>undefined\<close>, the arithmetic gives \<open>NaN\<close>, which is stored as 0,
  and stores beyond the end do nothing; a rest of three elements has all its reads.)
\<close>

fun canvasFilterLoop :: "canvas_filterer \<Rightarrow> 8 word list \<Rightarrow> 8 word list" where
  "canvasFilterLoop filt (r # g # b # a # rest) =
     (case filterChannels filt r g b of
        (r', g', b') \<Rightarrow> r' # g' # b' # a # canvasFilterLoop filt rest)"
| "canvasFilterLoop filt [r, g, b] =
     (case filterChannels filt r g b of (r', g', b') \<Rightarrow> [r', g', b'])"
| "canvasFilterLoop filt [r, g] = [0, 0]"
| "canvasFilterLoop filt [r] = [0]"
| "canvasFilterLoop filt [] = []"

text \<open>Pixel \<open>k\<close> of a flat RGBA array: the four elements from index \<open>4 * k\<close>.\<close>

definition pixelAt :: "8 word list \<Rightarrow> nat \<Rightarrow> 8 word \<times> 8 word \<times> 8 word \<times> 8 word" where
  "pixelAt d k = (d ! (4 * k), d ! (4 * k + 1), d ! (4 * k + 2), d ! (4 * k + 3))"

text \<open>What the loop makes of one pixel.\<close>

definition filterPixel ::
  "canvas_filterer \<Rightarrow> 8 word \<times> 8 word \<times> 8 word \<times> 8 word \<Rightarrow> 8 word \<times> 8 word \<times> 8 word \<times> 8 word" where
  "filterPixel filt p =
     (case p of (r, g, b, a) \<Rightarrow>
        (case filterChannels filt r g b of (r', g', b') \<Rightarrow> (r', g', b', a)))"

section \<open>The resize panel (\<open>ResizePanel\<close>)\<close>

text \<open>
  The panel keeps the two input fields as strings and the lock as a flag; the size of the
  current image comes in as the properties \<open>originalWidth\<close> and \<open>originalHeight\<close>.
\<close>

record resize_panel =
  width :: jsstring
  height :: jsstring
  isLocked :: bool

text \<open>
  \<open>parseInt(s, 10)\<close>: leading white space is skipped, then an optional sign, then the longest
  run of decimal digits is read; with no digit the result is \<open>NaN\<close> (\<open>None\<close>). The integer
  read becomes a number by rounding. (For more than 20 significant digits the language lets an
  implementation approximate the integer before rounding; the model does not.)
\<close>

definition isDigit :: "nat \<Rightarrow> bool" where
  "isDigit c = (48 \<le> c \<and> c \<le> 57)"

definition digitsValue :: "jsstring \<Rightarrow> nat" where
  "digitsValue z = foldl (\<lambda>acc c. 10 * acc + (c - 48)) 0 z"

definition parseInt :: "jsstring \<Rightarrow> rat option" where
  "parseInt s =
     (let t = dropWhile isWhiteSpace s;
          sign = (case t of c # _ \<Rightarrow> if c = 45 then - 1 else 1 | [] \<Rightarrow> (1::int));
          t' = (case t of c # rest \<Rightarrow> if c = 45 \<or> c = 43 then rest else t | [] \<Rightarrow> []);
          z = takeWhile isDigit t'
      in if z = [] then None else Some (fl (of_int (sign * int (digitsValue z)))))"

text \<open>
  \<open>toString\<close> of a number that is an integer: its decimal digits, with a minus sign if
  negative. (This is the form for \<open>\<bar>n\<bar> < 10\<^sup>2\<^sup>1\<close>; beyond that JavaScript prints an exponent.)
\<close>

fun digitsOf :: "nat \<Rightarrow> jsstring" where
  "digitsOf n = (if n < 10 then [48 + n] else digitsOf (n div 10) @ [48 + n mod 10])"

definition numberToString :: "int \<Rightarrow> jsstring" where
  "numberToString n = (if n < 0 then 45 # digitsOf (nat (- n)) else digitsOf (nat n))"

definition aspectRatio :: "nat \<Rightarrow> nat \<Rightarrow> rat" where
  "aspectRatio originalWidth originalHeight =
     (if originalWidth > 0 \<and> originalHeight > 0
      then fdiv (of_nat originalWidth) (of_nat originalHeight) else 1)"

definition handleWidthChange :: "nat \<Rightarrow> nat \<Rightarrow> jsstring \<Rightarrow> resize_panel \<Rightarrow> resize_panel" where
  "handleWidthChange originalWidth originalHeight newWidth st =
     (let st1 = st\<lparr>width := newWidth\<rparr>
      in if isLocked st \<and> newWidth \<noteq> []
         then (case parseInt newWidth of
                 None \<Rightarrow> st1
               | Some newWidthNum \<Rightarrow>
                   if newWidthNum > 0
                   then st1\<lparr>height := numberToString
                          (mathRound (fdiv newWidthNum (aspectRatio originalWidth originalHeight)))\<rparr>
                   else st1)
         else st1)"

definition handleHeightChange :: "nat \<Rightarrow> nat \<Rightarrow> jsstring \<Rightarrow> resize_panel \<Rightarrow> resize_panel" where
  "handleHeightChange originalWidth originalHeight newHeight st =
     (let st1 = st\<lparr>height := newHeight\<rparr>
      in if isLocked st \<and> newHeight \<noteq> []
         then (case parseInt newHeight of
                 None \<Rightarrow> st1
               | Some newHeightNum \<Rightarrow>
                   if newHeightNum > 0
                   then st1\<lparr>width := numberToString
                          (mathRound (fmul newHeightNum (aspectRatio originalWidth originalHeight)))\<rparr>
                   else st1)
         else st1)"

text \<open>The panel as it opens on an image of the given size (lines 17--19).\<close>

definition initialPanel :: "nat \<Rightarrow> nat \<Rightarrow> resize_panel" where
  "initialPanel originalWidth originalHeight =
     \<lparr>width = numberToString (int originalWidth), height = numberToString (int originalHeight),
      isLocked = True\<rparr>"

section \<open>Properties of the version history\<close>

lemma commits_upload:
  "history (commits fs (handleImageUpload f0 s)) = f0 # fs \<and>
   historyIndex (commits fs (handleImageUpload f0 s)) = int (length fs)"
proof (induction fs rule: rev_induct)
  case Nil
  then show ?case by (simp add: commits_def handleImageUpload_def resetTransientStates_def)
next
  case (snoc g fs)
  then show ?case
    by (simp add: commits_def addImageToHistory_def Let_def slice0_def)
qed

lemma inv_add: "historyInvariant s \<Longrightarrow> historyInvariant (addImageToHistory f s)"
  by (auto simp: historyInvariant_def addImageToHistory_def Let_def slice0_def min_def max_def
      split: if_splits)

lemma inv_upd_other [simp]:
  "historyInvariant (s\<lparr>isLoading := a\<rparr>) = historyInvariant s"
  "historyInvariant (s\<lparr>error := b\<rparr>) = historyInvariant s"
  "historyInvariant (s\<lparr>editHotspot := c\<rparr>) = historyInvariant s"
  "historyInvariant (s\<lparr>displayHotspot := d\<rparr>) = historyInvariant s"
  "historyInvariant (s\<lparr>isUiReady := e\<rparr>) = historyInvariant s"
  "historyInvariant (s\<lparr>prompt := f\<rparr>) = historyInvariant s"
  "historyInvariant (s\<lparr>colorAdjustments := g\<rparr>) = historyInvariant s"
  "historyInvariant (s\<lparr>secondaryImage := h\<rparr>) = historyInvariant s"
  "historyInvariant (s\<lparr>activeTab := i\<rparr>) = historyInvariant s"
  "historyInvariant (s\<lparr>isComparingModeActive := j\<rparr>) = historyInvariant s"
  by (simp_all add: historyInvariant_def)

lemma inv_reset [simp]: "historyInvariant (resetTransientStates s) = historyInvariant s"
  by (simp add: historyInvariant_def resetTransientStates_def)

lemma inv_runEdit:
  assumes "historyInvariant s" and "\<And>t. historyInvariant (k t) = historyInvariant t"
  shows "historyInvariant (fst (runEdit p k s q))"
  using assms by (auto simp: runEdit_def Let_def inv_add split: list.splits sum.splits)

lemmas handler_defs = handleGenerate_def handleApplyFilter_def applyCanvasFilter_def
  handleRotate_def handleApplyAdjustment_def handleApplyAiEdit_def handleApplyFaceSwap_def
  handleApplyResize_def handleApplyColorAdjustments_def

lemma inv_runOp: "historyInvariant s \<Longrightarrow> historyInvariant (fst (runOp op s q))"
  by (cases op) (auto simp: handler_defs intro!: inv_runEdit)

lemma inv_step: "historyInvariant s \<Longrightarrow> historyInvariant (step s e)"
proof (cases e)
  case (Commit f)
  then show "historyInvariant s \<Longrightarrow> ?thesis" by (simp add: inv_add)
next
  case Undo
  then show "historyInvariant s \<Longrightarrow> ?thesis"
    by (auto simp: handleUndo_def canUndo_def historyInvariant_def resetTransientStates_def
        split: if_splits)
next
  case Redo
  then show "historyInvariant s \<Longrightarrow> ?thesis"
    by (auto simp: handleRedo_def canRedo_def historyInvariant_def resetTransientStates_def
        split: if_splits)
next
  case Reset
  then show "historyInvariant s \<Longrightarrow> ?thesis"
    by (auto simp: handleReset_def historyInvariant_def resetTransientStates_def split: if_splits)
next
  case (Edit op q)
  then show "historyInvariant s \<Longrightarrow> ?thesis" by (simp add: inv_runOp)
qed (auto simp: handleImageUpload_def handleUploadNew_def handleTabChange_def
      handleImageClick_def handleSecondaryImageUpload_def handleClearSecondaryImage_def
      uiReadyTimer_def onDismiss_def historyInvariant_def resetTransientStates_def)

lemma reachable_invariant: "reachable s \<Longrightarrow> historyInvariant s"
proof (induction rule: reachable.induct)
  case reachable_initial
  show ?case by (simp add: historyInvariant_def initialState_def)
next
  case (reachable_step s e)
  then show ?case by (simp add: inv_step)
qed

lemma reachable_run: "reachable (run evs)"
  by (induction evs rule: rev_induct) (auto simp: run_def intro: reachable.intros)

lemma currentImage_commits:
  "currentImage (commits fs (handleImageUpload f0 s0)) = Some ((f0 # fs) ! length fs)"
  by (simp add: currentImage_def at_index_def commits_upload)

lemma undo_commits:
  assumes "fs \<noteq> []"
  shows "history (handleUndo (commits fs (handleImageUpload f0 s0))) = f0 # fs"
    and "historyIndex (handleUndo (commits fs (handleImageUpload f0 s0))) = int (length fs) - 1"
  using assms by (simp_all add: handleUndo_def canUndo_def commits_upload resetTransientStates_def)

lemma add_reachable:
  assumes "reachable t"
  shows "history (addImageToHistory g t) = take (nat (historyIndex t + 1)) (history t) @ [g]"
    and "historyIndex (addImageToHistory g t) = int (length (history (addImageToHistory g t))) - 1"
    and "currentImage (addImageToHistory g t) = Some g"
proof -
  have inv: "historyInvariant t" using assms by (rule reachable_invariant)
  then have *: "slice0 (history t) (historyIndex t + 1) = take (nat (historyIndex t + 1)) (history t)"
    by (auto simp: historyInvariant_def slice0_def Let_def min_def split: if_splits)
  show "history (addImageToHistory g t) = take (nat (historyIndex t + 1)) (history t) @ [g]"
    by (simp add: addImageToHistory_def Let_def *)
  show "historyIndex (addImageToHistory g t) = int (length (history (addImageToHistory g t))) - 1"
    by (simp add: addImageToHistory_def Let_def)
  show "currentImage (addImageToHistory g t) = Some g"
    by (simp add: addImageToHistory_def Let_def currentImage_def at_index_def)
qed

text \<open>
  Sequential use, where every edit settles before the next event is handled. Upload a file
  \<open>f0\<close> (version 0) and commit the files \<open>fs\<close>, \<open>N = length fs\<close> of them with \<open>N \<ge> 1\<close>;
  version \<open>k\<close> is \<open>(f0 # fs) ! k\<close>. The displayed image is then version \<open>N\<close>; after an undo
  it is version \<open>N - 1\<close>, and a redo after that undo displays version \<open>N\<close> again.
  Committing \<open>g\<close> after the undo leaves the versions \<open>0 .. N - 1\<close> followed by \<open>g\<close>. In every
  state \<open>t\<close> reached through such steps, a commit keeps the positions \<open>0 .. historyIndex\<close> of
  the history, appends the new file, moves the position to the new last entry and displays
  the new file.
\<close>

lemma sequential_undo_redo_commit:
  fixes fs :: "image_file list" and f0 :: image_file and s0 :: app_state
  assumes "fs \<noteq> []" and "reachable t"
  defines "s \<equiv> commits fs (handleImageUpload f0 s0)"
  shows "currentImage s = Some ((f0 # fs) ! length fs)
       \<and> currentImage (handleUndo s) = Some ((f0 # fs) ! (length fs - 1))
       \<and> currentImage (handleRedo (handleUndo s)) = Some ((f0 # fs) ! length fs)
       \<and> history (addImageToHistory g (handleUndo s)) = take (length fs) (f0 # fs) @ [g]
       \<and> history (addImageToHistory g t) = take (nat (historyIndex t + 1)) (history t) @ [g]
       \<and> historyIndex (addImageToHistory g t) = int (length (history (addImageToHistory g t))) - 1
       \<and> currentImage (addImageToHistory g t) = Some g"
proof -
  note u = undo_commits [OF assms(1), of f0 s0]
  have n: "0 < length fs" using assms(1) by simp
  have 1: "currentImage s = Some ((f0 # fs) ! length fs)"
    unfolding s_def by (rule currentImage_commits)
  have 2: "currentImage (handleUndo s) = Some ((f0 # fs) ! (length fs - 1))"
  proof -
    have "nat (int (length fs) - 1) = length fs - 1" by arith
    then show ?thesis
      unfolding s_def using n by (simp add: currentImage_def at_index_def u)
  qed
  have 3: "currentImage (handleRedo (handleUndo s)) = Some ((f0 # fs) ! length fs)"
    unfolding s_def using n
    by (simp add: handleRedo_def canRedo_def u currentImage_def at_index_def resetTransientStates_def)
  have 4: "history (addImageToHistory g (handleUndo s)) = take (length fs) (f0 # fs) @ [g]"
    unfolding s_def using n
    by (simp add: addImageToHistory_def Let_def u slice0_def min_def)
  from 1 2 3 4 add_reachable [OF assms(2), of g] show ?thesis by simp
qed

lemma sequential_undo_redo_commit_example:
  "[png1, png2] \<noteq> [] \<and> reachable (run [Upload png0, Commit png1, Commit png2, Undo, Undo])
   \<and> currentImage (handleUndo (commits [png1, png2] (handleImageUpload png0 initialState)))
       = Some png1
   \<and> currentImage (handleRedo (handleUndo (commits [png1, png2]
         (handleImageUpload png0 initialState)))) = Some png2
   \<and> history (addImageToHistory png3 (handleUndo (commits [png1, png2]
         (handleImageUpload png0 initialState)))) = [png0, png1, png3]
   \<and> history (addImageToHistory png3 (run [Upload png0, Commit png1, Commit png2, Undo, Undo]))
       = [png0, png3]
   \<and> historyIndex (addImageToHistory png3
         (run [Upload png0, Commit png1, Commit png2, Undo, Undo])) = 1"
proof -
  have ne: "[png1, png2] \<noteq> []" by simp
  have r: "reachable (run [Upload png0, Commit png1, Commit png2, Undo, Undo])"
    by (rule reachable_run)
  have h: "history (run [Upload png0, Commit png1, Commit png2, Undo, Undo]) = [png0, png1, png2]"
    "historyIndex (run [Upload png0, Commit png1, Commit png2, Undo, Undo]) = 0"
    by (simp_all add: run_def initialState_def handleImageUpload_def resetTransientStates_def
        addImageToHistory_def Let_def slice0_def handleUndo_def canUndo_def)
  from sequential_undo_redo_commit [OF ne r, of png0 initialState png3] ne r h show ?thesis by simp
qed

subsection \<open>A commit that settles after an undo\<close>

lemma threeVersions_eq:
  "threeVersions =
     \<lparr>history = [png0, png1, png2], historyIndex = 2, prompt = [], isLoading = False,
      isUiReady = True, error = None, editHotspot = None, displayHotspot = None,
      activeTab = Tab_retouch, secondaryImage = None, crop = None, completedCrop = None,
      aspect = None, isComparingModeActive = False, imageDimensions = None,
      colorAdjustments = defaultAdjustments\<rparr>"
  by (simp add: threeVersions_def run_def initialState_def handleImageUpload_def
      resetTransientStates_def addImageToHistory_def Let_def slice0_def uiReadyTimer_def
      currentImage_def at_index_def)

lemma start_then_settle:
  assumes "reachesBody op s"
  shows "runOp op s (r # q) =
           (settleEdit \<lparr>flightOp = op, capturedHistory = history s,
                         capturedHistoryIndex = historyIndex s\<rparr> r
              (fst (startEdit op s)), q)"
  using assms
  by (cases op; cases r)
    (auto simp: startEdit_def settleEdit_def addImageToHistoryCaptured_def addImageToHistory_def
      runEdit_def Let_def handleGenerate_def handleApplyFilter_def applyCanvasFilter_def
      handleRotate_def handleApplyAdjustment_def handleApplyAiEdit_def handleApplyFaceSwap_def
      handleApplyResize_def handleApplyColorAdjustments_def)

lemma inv_settleEdit: "historyInvariant s \<Longrightarrow> historyInvariant (settleEdit flight r s)"
  by (cases r)
    (auto simp: settleEdit_def addImageToHistoryCaptured_def Let_def historyInvariant_def)

text \<open>While an edit is in flight the undo and redo buttons are disabled.\<close>

lemma buttons_disabled_while_loading:
  "isLoading s \<Longrightarrow> undoButtonDisabled s \<and> redoButtonDisabled s \<and> rotateButtonDisabled s"
  by (simp add: undoButtonDisabled_def redoButtonDisabled_def rotateButtonDisabled_def)

text \<open>
  Claim C1 (a commit after an undo truncates the history to the positions
  \<open>0 .. historyIndex\<close>, appends the new file and so discards the redo entries) at an input
  where the code departs from it. With three versions displayed at position 2, a rotate is
  started: the handler sets \<open>isLoading\<close> and its closure holds the history of three versions
  and the position 2. With \<open>isLoading\<close> set the undo button is disabled, but Ctrl+Z still
  reaches \<open>handleUndo\<close>:
  the position becomes 1 and version 1 is displayed. When the rotate settles with a new file,
  the commit is computed from the captured history and position: the history has four
  entries, the undone version 2 still among them, and the position is 3. Truncating at the
  position of the moment would have left versions 0 and 1 followed by the new file.
\<close>

theorem stale_commit_keeps_redo_entry:
  "startEdit OpRotate threeVersions
     = (threeVersions\<lparr>isLoading := True\<rparr>,
        Some \<lparr>flightOp = OpRotate, capturedHistory = [png0, png1, png2],
              capturedHistoryIndex = 2\<rparr>)
   \<and> rotateButtonDisabled threeVersions = False
   \<and> isLoading (fst (startEdit OpRotate threeVersions)) = True
   \<and> historyIndex (handleKeyDown ctrlZ (threeVersions\<lparr>isLoading := True\<rparr>)) = 1
   \<and> currentImage (handleKeyDown ctrlZ (threeVersions\<lparr>isLoading := True\<rparr>)) = Some png1
   \<and> history (settleEdit \<lparr>flightOp = OpRotate, capturedHistory = [png0, png1, png2],
                            capturedHistoryIndex = 2\<rparr> (Inr png3)
                 (handleKeyDown ctrlZ (threeVersions\<lparr>isLoading := True\<rparr>)))
       = [png0, png1, png2, png3]
   \<and> historyIndex (settleEdit \<lparr>flightOp = OpRotate, capturedHistory = [png0, png1, png2],
                            capturedHistoryIndex = 2\<rparr> (Inr png3)
                 (handleKeyDown ctrlZ (threeVersions\<lparr>isLoading := True\<rparr>))) = 3
   \<and> slice0 (history (handleKeyDown ctrlZ (threeVersions\<lparr>isLoading := True\<rparr>)))
         (historyIndex (handleKeyDown ctrlZ (threeVersions\<lparr>isLoading := True\<rparr>)) + 1) @ [png3]
       = [png0, png1, png3]"
  by (simp add: threeVersions_eq startEdit_def currentImage_def at_index_def
      rotateButtonDisabled_def canUndo_def handleKeyDown_def ctrlZ_def
      toLowerCase_def str_def handleUndo_def resetTransientStates_def settleEdit_def
      addImageToHistoryCaptured_def Let_def slice0_def)

subsection \<open>The position stays within the history\<close>

text \<open>
  Claim C2. In every state the editor's events lead to from the initial empty state (upload,
  commit, undo, redo, reset, upload-new, and every other handler of the model), a non-empty
  history has its position within \<open>0 .. length - 1\<close> and an empty history has position \<open>-1\<close>.
\<close>

theorem history_position_in_bounds:
  assumes "reachable s"
  shows "(history s \<noteq> [] \<longrightarrow>
            0 \<le> historyIndex s \<and> historyIndex s \<le> int (length (history s)) - 1)
       \<and> (history s = [] \<longrightarrow> historyIndex s = - 1)"
  using reachable_invariant [OF assms] by (simp add: historyInvariant_def split: if_splits)

theorem history_position_in_bounds_witness:
  "reachable (run [Upload png0, Commit png1, Undo, Commit png2, Redo])
   \<and> history (run [Upload png0, Commit png1, Undo, Commit png2, Redo]) = [png0, png2]
   \<and> historyIndex (run [Upload png0, Commit png1, Undo, Commit png2, Redo]) = 1
   \<and> reachable (run [Upload png0, UploadNew])
   \<and> history (run [Upload png0, UploadNew]) = []
   \<and> historyIndex (run [Upload png0, UploadNew]) = - 1"
proof -
  have r1: "reachable (run [Upload png0, Commit png1, Undo, Commit png2, Redo])"
    by (rule reachable_run)
  have r2: "reachable (run [Upload png0, UploadNew])" by (rule reachable_run)
  have h1: "history (run [Upload png0, Commit png1, Undo, Commit png2, Redo]) = [png0, png2]"
    "historyIndex (run [Upload png0, Commit png1, Undo, Commit png2, Redo]) = 1"
    by (simp_all add: run_def initialState_def handleImageUpload_def resetTransientStates_def
        addImageToHistory_def Let_def slice0_def handleUndo_def canUndo_def handleRedo_def
        canRedo_def)
  have h2: "history (run [Upload png0, UploadNew]) = []"
    by (simp add: run_def initialState_def handleImageUpload_def resetTransientStates_def
        handleUploadNew_def)
  from history_position_in_bounds [OF r1] history_position_in_bounds [OF r2] r1 r2 h1 h2
  show ?thesis by simp
qed

section \<open>Transient edit state\<close>




lemma run_retouchReady:
  "run retouchReady =
     \<lparr>history = [png0, png1, png2], historyIndex = 1, prompt = str ''remove the lamp'',
      isLoading = False, isUiReady = True, error = None, editHotspot = Some clickNatural,
      displayHotspot = Some clickShown, activeTab = Tab_retouch, secondaryImage = Some png3,
      crop = None, completedCrop = None, aspect = None, isComparingModeActive = False,
      imageDimensions = None, colorAdjustments = defaultAdjustments\<rparr>"
  by (simp add: run_def retouchReady_def initialState_def handleImageUpload_def
      resetTransientStates_def addImageToHistory_def Let_def slice0_def handleUndo_def canUndo_def
      uiReadyTimer_def currentImage_def at_index_def handleImageClick_def
      handleSecondaryImageUpload_def)




section \<open>Failing and refused edits\<close>

lemma trim_empty_iff: "trim p = [] \<longleftrightarrow> (\<forall>c\<in>set p. isWhiteSpace c)"
proof
  assume "trim p = []"
  then have "dropWhile isWhiteSpace (rev (dropWhile isWhiteSpace p)) = []" by (simp add: trim_def)
  then have "\<forall>c\<in>set (dropWhile isWhiteSpace p). isWhiteSpace c"
    by (simp add: dropWhile_eq_Nil_conv)
  moreover have "dropWhile isWhiteSpace p = [] \<or> \<not> isWhiteSpace (hd (dropWhile isWhiteSpace p))"
    using hd_dropWhile by blast
  ultimately have "dropWhile isWhiteSpace p = []" by (cases "dropWhile isWhiteSpace p") auto
  then show "\<forall>c\<in>set p. isWhiteSpace c" by (simp add: dropWhile_eq_Nil_conv)
next
  assume "\<forall>c\<in>set p. isWhiteSpace c"
  then have "dropWhile isWhiteSpace p = []" by (simp only: dropWhile_eq_Nil_conv)
  then show "trim p = []" unfolding trim_def by (simp del: dropWhile_eq_Nil_conv)
qed

lemma runEdit_failure:
  "runEdit p k s (Inl err # q) =
     (s\<lparr>isLoading := False, error := Some (Failed p (errorMessage err))\<rparr>, q)"
  by (simp add: runEdit_def Let_def)

lemma runOp_failure_reached:
  "reachesBody op s \<Longrightarrow>
   runOp op s (Inl err # q) =
     (s\<lparr>isLoading := False, error := Some (Failed (failurePrefix op) (errorMessage err))\<rparr>, q)"
  by (cases op) (auto simp: handler_defs runEdit_failure)

lemma runOp_failure_history:
  "history (fst (runOp op s (Inl err # q))) = history s \<and>
   historyIndex (fst (runOp op s (Inl err # q))) = historyIndex s"
  by (cases op) (auto simp: handler_defs runEdit_failure)

text \<open>
  Claim C5. Let \<open>op\<close> be any of the edit operations (retouch generate, AI filter, adjustment,
  AI edit, face swap, client-side filter, rotate, resize, color adjustment) and let the next
  pending outcome be a thrown value \<open>err\<close>. Then the history and the position are unchanged.
  When the handler's guards let it reach its \<open>try\<close> body, the state after the handler is the
  state before it with \<open>error\<close> set to the handler's failure message (and \<open>isLoading\<close> false),
  the one failed outcome has been taken and no other (no second attempt), the message is
  rendered as a toast with a dismiss button and a 5000 ms dismiss timer, and dismissing
  clears it.
\<close>

theorem edit_failure_all_or_nothing:
  "history (fst (runOp op s (Inl err # q))) = history s
   \<and> historyIndex (fst (runOp op s (Inl err # q))) = historyIndex s
   \<and> (reachesBody op s \<longrightarrow>
        runOp op s (Inl err # q) =
          (s\<lparr>isLoading := False,
             error := Some (Failed (failurePrefix op) (errorMessage err))\<rparr>, q)
        \<and> renderToast (fst (runOp op s (Inl err # q))) =
            Some \<lparr>message = Failed (failurePrefix op) (errorMessage err), autoDismissMs = 5000,
                  dismissible = True\<rparr>
        \<and> error (onDismiss (fst (runOp op s (Inl err # q)))) = None)"
  using runOp_failure_history [of op s err q]
  by (auto simp: runOp_failure_reached renderToast_def ErrorToast_def onDismiss_def)

theorem edit_failure_all_or_nothing_witness:
  "reachesBody OpApplyFaceSwap (run retouchReady)
   \<and> history (fst (runOp OpApplyFaceSwap (run retouchReady)
        [Inl (ErrorObj (str ''Request was blocked.'')), Inr png3])) = [png0, png1, png2]
   \<and> historyIndex (fst (runOp OpApplyFaceSwap (run retouchReady)
        [Inl (ErrorObj (str ''Request was blocked.'')), Inr png3])) = 1
   \<and> error (fst (runOp OpApplyFaceSwap (run retouchReady)
        [Inl (ErrorObj (str ''Request was blocked.'')), Inr png3]))
       = Some (Failed FaceSwapFailed (str ''Request was blocked.''))
   \<and> snd (runOp OpApplyFaceSwap (run retouchReady)
        [Inl (ErrorObj (str ''Request was blocked.'')), Inr png3]) = [Inr png3]"
proof -
  have r: "reachesBody OpApplyFaceSwap (run retouchReady)"
    by (simp add: run_retouchReady currentImage_def at_index_def)
  from edit_failure_all_or_nothing
    [of OpApplyFaceSwap "run retouchReady" "ErrorObj (str ''Request was blocked.'')" "[Inr png3]"] r
  show ?thesis by (simp add: run_retouchReady errorMessage_def)
qed

text \<open>
  Claim C10. When \<open>handleGenerate\<close> is called with no current image, with a prompt that is
  empty or consists of white space only, or with no hotspot, the state after it is the state
  before it with \<open>error\<close> set to the message of the first check that fails (no image, then
  prompt, then hotspot); the history, the position and the loading flag are unchanged and no
  pending outcome of the service is taken.
\<close>

theorem handleGenerate_guards:
  assumes "currentImage s = None \<or> (\<forall>c\<in>set (prompt s). isWhiteSpace c) \<or> editHotspot s = None"
  shows "handleGenerate s q =
           (s\<lparr>error := Some (if currentImage s = None then NoImageToEdit
                              else if (\<forall>c\<in>set (prompt s). isWhiteSpace c) then EnterPrompt
                              else SelectArea)\<rparr>, q)
       \<and> history (fst (handleGenerate s q)) = history s
       \<and> historyIndex (fst (handleGenerate s q)) = historyIndex s
       \<and> isLoading (fst (handleGenerate s q)) = isLoading s
       \<and> snd (handleGenerate s q) = q"
  using assms by (auto simp: handleGenerate_def trim_empty_iff)

theorem handleGenerate_guards_witness:
  "trim (prompt (step (run retouchReady) (SetPrompt [32, 9, 12288]))) = []
   \<and> currentImage (step (run retouchReady) (SetPrompt [32, 9, 12288])) \<noteq> None
   \<and> handleGenerate (step (run retouchReady) (SetPrompt [32, 9, 12288])) [Inr png3]
       = ((step (run retouchReady) (SetPrompt [32, 9, 12288]))\<lparr>error := Some EnterPrompt\<rparr>,
          [Inr png3])
   \<and> error (fst (handleGenerate initialState [Inr png3])) = Some NoImageToEdit
   \<and> error (fst (handleGenerate (handleImageUpload png0 initialState\<lparr>prompt := str ''x''\<rparr>)
        [Inr png3])) = Some SelectArea"
proof -
  let ?s = "step (run retouchReady) (SetPrompt [32, 9, 12288])"
  let ?u = "handleImageUpload png0 initialState\<lparr>prompt := str ''x''\<rparr>"
  have w: "\<forall>c\<in>set (prompt ?s). isWhiteSpace c" by (simp add: isWhiteSpace_def)
  have c: "currentImage ?s \<noteq> None" by (simp add: run_retouchReady currentImage_def at_index_def)
  have i: "currentImage initialState = None"
    by (simp add: initialState_def currentImage_def at_index_def)
  have u: "editHotspot ?u = None" "currentImage ?u \<noteq> None"
    "\<not> (\<forall>c\<in>set (prompt ?u). isWhiteSpace c)"
    by (simp_all add: handleImageUpload_def resetTransientStates_def initialState_def
        currentImage_def at_index_def str_def isWhiteSpace_def)
  have t: "trim (prompt ?s) = []" using w by (simp only: trim_empty_iff)
  from handleGenerate_guards [of ?s "[Inr png3]"] handleGenerate_guards [of initialState "[Inr png3]"]
    handleGenerate_guards [of ?u "[Inr png3]"] w c i u t
  show ?thesis by simp
qed

section \<open>Properties of the service response handling\<close>

lemma find_first:
  "find P xs = Some p \<longleftrightarrow> (\<exists>ps qs. xs = ps @ p # qs \<and> (\<forall>x\<in>set ps. \<not> P x) \<and> P p)"
proof (induction xs)
  case Nil
  show ?case by simp
next
  case (Cons a xs)
  show ?case
  proof (cases "P a")
    case True
    have "(\<exists>ps qs. a # xs = ps @ p # qs \<and> (\<forall>x\<in>set ps. \<not> P x) \<and> P p) \<longleftrightarrow> a = p"
    proof
      assume "\<exists>ps qs. a # xs = ps @ p # qs \<and> (\<forall>x\<in>set ps. \<not> P x) \<and> P p"
      then obtain ps qs where *: "a # xs = ps @ p # qs" "\<forall>x\<in>set ps. \<not> P x" by blast
      show "a = p"
      proof (cases ps)
        case Nil
        with * show ?thesis by simp
      next
        case (Cons b bs)
        with * True show ?thesis by auto
      qed
    next
      assume "a = p"
      with True have "a # xs = [] @ p # xs \<and> (\<forall>x\<in>set []. \<not> P x) \<and> P p" by simp
      then show "\<exists>ps qs. a # xs = ps @ p # qs \<and> (\<forall>x\<in>set ps. \<not> P x) \<and> P p" by blast
    qed
    with True show ?thesis by simp
  next
    case False
    have "(\<exists>ps qs. a # xs = ps @ p # qs \<and> (\<forall>x\<in>set ps. \<not> P x) \<and> P p)
        \<longleftrightarrow> (\<exists>ps qs. xs = ps @ p # qs \<and> (\<forall>x\<in>set ps. \<not> P x) \<and> P p)"
    proof
      assume "\<exists>ps qs. a # xs = ps @ p # qs \<and> (\<forall>x\<in>set ps. \<not> P x) \<and> P p"
      then obtain ps qs where *: "a # xs = ps @ p # qs" "\<forall>x\<in>set ps. \<not> P x" "P p" by blast
      show "\<exists>ps qs. xs = ps @ p # qs \<and> (\<forall>x\<in>set ps. \<not> P x) \<and> P p"
      proof (cases ps)
        case Nil
        with * False show ?thesis by simp
      next
        case (Cons b bs)
        with * have "xs = bs @ p # qs \<and> (\<forall>x\<in>set bs. \<not> P x) \<and> P p" by simp
        then show ?thesis by blast
      qed
    next
      assume "\<exists>ps qs. xs = ps @ p # qs \<and> (\<forall>x\<in>set ps. \<not> P x) \<and> P p"
      then obtain ps qs where *: "xs = ps @ p # qs" "\<forall>x\<in>set ps. \<not> P x" "P p" by blast
      with False have "a # xs = (a # ps) @ p # qs \<and> (\<forall>x\<in>set (a # ps). \<not> P x) \<and> P p" by simp
      then show "\<exists>ps qs. a # xs = ps @ p # qs \<and> (\<forall>x\<in>set ps. \<not> P x) \<and> P p" by blast
    qed
    with False Cons.IH show ?thesis by simp
  qed
qed

lemma image_part_iff:
  "(case find (\<lambda>p. inlineData p \<noteq> None) ps0 of None \<Rightarrow> None | Some p \<Rightarrow> inlineData p) = Some d
   \<longleftrightarrow> (\<exists>ps p qs. ps0 = ps @ p # qs \<and> (\<forall>x\<in>set ps. inlineData x = None) \<and> inlineData p = Some d)"
  (is "?l \<longleftrightarrow> ?r")
proof
  assume ?l
  then obtain p where "find (\<lambda>p. inlineData p \<noteq> None) ps0 = Some p" "inlineData p = Some d"
    by (auto split: option.splits)
  then show ?r by (auto simp: find_first) 
next
  assume ?r
  then obtain ps p qs where *: "ps0 = ps @ p # qs" "\<forall>x\<in>set ps. inlineData x = None"
    "inlineData p = Some d" by blast
  then have "find (\<lambda>p. inlineData p \<noteq> None) ps0 = Some p"
    by (subst find_first) auto
  with * show ?l by simp
qed

lemma image_part_none_iff:
  "(case find (\<lambda>p. inlineData p \<noteq> None) ps0 of None \<Rightarrow> None | Some p \<Rightarrow> inlineData p) = None
   \<longleftrightarrow> (\<forall>x\<in>set ps0. inlineData x = None)"
  by (auto simp: find_None_iff find_Some_iff split: option.splits)

text \<open>
  Claim C4. \<open>handleApiResponse\<close> returns a URL \<open>u\<close> exactly when the response carries no
  (truthy) \<open>promptFeedback.blockReason\<close> and the parts of its first candidate contain a part
  with \<open>inlineData\<close>; \<open>u\<close> is then \<open>data:<mimeType>;base64,<data>\<close> of the first such part. In
  every other case it throws an \<open>Error\<close>: with a block reason, the message names the block
  reason (and the block message, if any); with no image part, the message names the finish
  reason when there is one other than \<open>STOP\<close>, and otherwise quotes the model's trimmed text
  when that is not empty, or gives a general hint.
\<close>

theorem handleApiResponse_result:
  "(handleApiResponse r context = Inr u \<longleftrightarrow>
      \<not> truthy (promptBlockReason r) \<and>
      (\<exists>ps p d qs. responseParts r = ps @ p # qs \<and> (\<forall>x\<in>set ps. inlineData x = None)
         \<and> inlineData p = Some d
         \<and> u = str ''data:'' @ interp (mimeType d) @ str '';base64,'' @ interp (inlineBytes d)))
   \<and> (truthy (promptBlockReason r) \<longrightarrow>
        handleApiResponse r context =
          Inl (ErrorObj (blockedMessage (promptBlockReason r)
                 (case promptFeedback r of None \<Rightarrow> None | Some pf \<Rightarrow> blockReasonMessage pf))))
   \<and> (\<not> truthy (promptBlockReason r) \<and> (\<forall>x\<in>set (responseParts r). inlineData x = None) \<longrightarrow>
        handleApiResponse r context =
          Inl (ErrorObj
            (if truthy (responseFinishReason r) \<and> responseFinishReason r \<noteq> Some (str ''STOP'')
             then stoppedMessage context (responseFinishReason r)
             else noImageMessage context (map_option trim (responseText r)))))
   \<and> ((\<exists>url. handleApiResponse r context = Inr url)
        \<or> (\<exists>msg. handleApiResponse r context = Inl (ErrorObj msg)))"
proof -
  let ?img = "case find (\<lambda>p. inlineData p \<noteq> None) (responseParts r) of None \<Rightarrow> None
              | Some p \<Rightarrow> inlineData p"
  have 1: "handleApiResponse r context = Inr u \<longleftrightarrow>
      \<not> truthy (promptBlockReason r) \<and> (\<exists>d. ?img = Some d \<and> u = dataUrl d)"
    by (auto simp: handleApiResponse_def split: option.splits)
  have 2: "(\<exists>d. ?img = Some d \<and> u = dataUrl d) \<longleftrightarrow>
      (\<exists>ps p d qs. responseParts r = ps @ p # qs \<and> (\<forall>x\<in>set ps. inlineData x = None)
         \<and> inlineData p = Some d
         \<and> u = str ''data:'' @ interp (mimeType d) @ str '';base64,'' @ interp (inlineBytes d))"
    unfolding image_part_iff dataUrl_def by blast
  have 3: "truthy (promptBlockReason r) \<longrightarrow>
        handleApiResponse r context =
          Inl (ErrorObj (blockedMessage (promptBlockReason r)
                 (case promptFeedback r of None \<Rightarrow> None | Some pf \<Rightarrow> blockReasonMessage pf)))"
    by (simp add: handleApiResponse_def)
  have 4: "\<not> truthy (promptBlockReason r) \<and> (\<forall>x\<in>set (responseParts r). inlineData x = None) \<longrightarrow>
        handleApiResponse r context =
          Inl (ErrorObj
            (if truthy (responseFinishReason r) \<and> responseFinishReason r \<noteq> Some (str ''STOP'')
             then stoppedMessage context (responseFinishReason r)
             else noImageMessage context (map_option trim (responseText r))))"
  proof
    assume a: "\<not> truthy (promptBlockReason r) \<and> (\<forall>x\<in>set (responseParts r). inlineData x = None)"
    then have "\<forall>x\<in>set (responseParts r). inlineData x = None" by (rule conjunct2)
    then have "?img = None" by (simp only: image_part_none_iff)
    with a show "handleApiResponse r context =
          Inl (ErrorObj
            (if truthy (responseFinishReason r) \<and> responseFinishReason r \<noteq> Some (str ''STOP'')
             then stoppedMessage context (responseFinishReason r)
             else noImageMessage context (map_option trim (responseText r))))"
      by (simp add: handleApiResponse_def)
  qed
  have 5: "(\<exists>url. handleApiResponse r context = Inr url)
        \<or> (\<exists>msg. handleApiResponse r context = Inl (ErrorObj msg))"
    by (cases ?img) (simp_all add: handleApiResponse_def)
  from 1 2 3 4 5 show ?thesis by blast
qed

lemma str_append: "str a @ str b = str (a @ b)"
  by (simp add: str_def)

theorem handleApiResponse_result_witness:
  "\<not> truthy (promptBlockReason imageResponse)
   \<and> handleApiResponse imageResponse (str ''edit'') = Inr (str ''data:image/png;base64,iVBORw0KGgo='')
   \<and> truthy (promptBlockReason blockedResponse)
   \<and> handleApiResponse blockedResponse (str ''edit'')
       = Inl (ErrorObj (str ''Request was blocked. Reason: SAFETY. ''))
   \<and> handleApiResponse stoppedResponse (str ''filter'')
       = Inl (ErrorObj (str (''Image generation for filter stopped unexpectedly. ''
            @ ''Reason: IMAGE_SAFETY. This often relates to safety settings.'')))
   \<and> handleApiResponse refusalResponse (str ''edit'')
       = Inl (ErrorObj (str ''The AI model did not return an image for the edit. The model responded with text: ''
            @ [34] @ str ''I cannot do that.'' @ [34]))"
proof -
  have nb: "\<not> truthy (promptBlockReason imageResponse)"
    "\<not> truthy (promptBlockReason stoppedResponse)" "\<not> truthy (promptBlockReason refusalResponse)"
    by (simp_all add: truthy_def promptBlockReason_def imageResponse_def stoppedResponse_def
        refusalResponse_def)
  have b: "truthy (promptBlockReason blockedResponse)"
    by (simp add: truthy_def promptBlockReason_def blockedResponse_def str_def)
  have parts: "responseParts imageResponse = [textPart] @ pngPart # []"
    "responseParts stoppedResponse = []" "responseParts refusalResponse = [textPart]"
    by (simp_all add: responseParts_def firstCandidate_def imageResponse_def stoppedResponse_def
        refusalResponse_def)
  have img: "\<exists>ps p d qs. responseParts imageResponse = ps @ p # qs
      \<and> (\<forall>x\<in>set ps. inlineData x = None) \<and> inlineData p = Some d
      \<and> str ''data:image/png;base64,iVBORw0KGgo='' =
          str ''data:'' @ interp (mimeType d) @ str '';base64,'' @ interp (inlineBytes d)"
    apply (rule exI [of _ "[textPart]"])
    apply (rule exI [of _ pngPart])
    apply (rule exI [of _ "\<lparr>mimeType = Some (str ''image/png''), inlineBytes = Some (str ''iVBORw0KGgo='')\<rparr>"])
    apply (rule exI [of _ "[]"])
    apply (simp add: parts textPart_def pngPart_def interp_def str_def)
    done
  have noimg: "\<forall>x\<in>set (responseParts stoppedResponse). inlineData x = None"
    "\<forall>x\<in>set (responseParts refusalResponse). inlineData x = None"
    by (simp_all add: parts textPart_def)
  have fr: "responseFinishReason stoppedResponse = Some (str ''IMAGE_SAFETY'')"
    "responseFinishReason refusalResponse = Some (str ''STOP'')"
    by (simp_all add: responseFinishReason_def firstCandidate_def stoppedResponse_def
        refusalResponse_def)
  have tr: "map_option trim (responseText refusalResponse) = Some (str ''I cannot do that.'')"
    by (simp add: refusalResponse_def trim_def str_def isWhiteSpace_def)
  have m1: "blockedMessage (promptBlockReason blockedResponse)
       (case promptFeedback blockedResponse of None \<Rightarrow> None | Some pf \<Rightarrow> blockReasonMessage pf)
     = str ''Request was blocked. Reason: SAFETY. ''"
    by (simp add: blockedMessage_def promptBlockReason_def blockedResponse_def interp_def
        orEmpty_def truthy_def str_def)
  have m2: "stoppedMessage (str ''filter'') (Some (str ''IMAGE_SAFETY''))
     = str (''Image generation for filter stopped unexpectedly. ''
            @ ''Reason: IMAGE_SAFETY. This often relates to safety settings.'')"
    by (simp add: stoppedMessage_def interp_def str_def)
  have m3: "noImageMessage (str ''edit'') (Some (str ''I cannot do that.''))
     = str ''The AI model did not return an image for the edit. The model responded with text: ''
            @ [34] @ str ''I cannot do that.'' @ [34]"
    by (simp add: noImageMessage_def interp_def truthy_def str_def)
  have t1: "truthy (Some (str ''IMAGE_SAFETY''))" "str ''IMAGE_SAFETY'' \<noteq> str ''STOP''"
    by (simp_all add: truthy_def str_def)
  from handleApiResponse_result [of imageResponse "str ''edit''" "str ''data:image/png;base64,iVBORw0KGgo=''"]
    nb img
  have r1: "handleApiResponse imageResponse (str ''edit'') = Inr (str ''data:image/png;base64,iVBORw0KGgo='')"
    by blast
  from handleApiResponse_result [of blockedResponse "str ''edit''" "[]"] b m1
  have r2: "handleApiResponse blockedResponse (str ''edit'')
       = Inl (ErrorObj (str ''Request was blocked. Reason: SAFETY. ''))"
    by simp
  from handleApiResponse_result [of stoppedResponse "str ''filter''" "[]"] nb noimg fr m2 t1
  have r3: "handleApiResponse stoppedResponse (str ''filter'')
       = Inl (ErrorObj (str (''Image generation for filter stopped unexpectedly. ''
            @ ''Reason: IMAGE_SAFETY. This often relates to safety settings.'')))"
    by simp
  from handleApiResponse_result [of refusalResponse "str ''edit''" "[]"] nb noimg fr tr m3
  have r4: "handleApiResponse refusalResponse (str ''edit'')
       = Inl (ErrorObj (str ''The AI model did not return an image for the edit. The model responded with text: ''
            @ [34] @ str ''I cannot do that.'' @ [34]))"
    by simp
  from nb r1 b r2 r3 r4 show ?thesis by blast
qed

section \<open>Properties of the number model\<close>

lemma two_powi_bitlen:
  assumes "0 < (p::int)"
  shows "2 powi (bitlen p - 1) \<le> (of_int p :: rat)" and "(of_int p :: rat) < 2 powi bitlen p"
proof -
  from bitlen_bounds [OF assms]
  have b: "2 ^ nat (bitlen p - 1) \<le> p" "p < 2 ^ nat (bitlen p)" by simp_all
  have ge1: "1 \<le> bitlen p" using assms bitlen_eq_zero_iff [of p] bitlen_nonneg [of p] by linarith
  have "(of_int (2 ^ nat (bitlen p - 1)) :: rat) \<le> of_int p" using b(1) by (simp only: of_int_le_iff)
  moreover have "(2::rat) powi (bitlen p - 1) = 2 ^ nat (bitlen p - 1)"
    using ge1 by (simp add: power_int_def)
  ultimately show "2 powi (bitlen p - 1) \<le> (of_int p :: rat)" by simp
  have "(of_int p :: rat) < of_int (2 ^ nat (bitlen p))" using b(2) by (simp only: of_int_less_iff)
  moreover have "(2::rat) powi bitlen p = 2 ^ nat (bitlen p)"
    using ge1 by (simp add: power_int_def)
  ultimately show "(of_int p :: rat) < 2 powi bitlen p" by simp
qed

lemma bexp_bounds:
  assumes "x \<noteq> 0"
  shows "2 powi bexp x \<le> \<bar>x\<bar>" and "\<bar>x\<bar> < 2 powi (bexp x + 1)"
proof -
  obtain p q where pq: "quotient_of \<bar>x\<bar> = (p, q)" by (cases "quotient_of \<bar>x\<bar>")
  have q: "0 < q" using pq by (rule quotient_of_denom_pos)
  have x: "\<bar>x\<bar> = of_int p / of_int q" using pq by (rule quotient_of_div)
  have "0 < \<bar>x\<bar>" using assms by simp
  then have p: "0 < p" using q x by (simp add: zero_less_divide_iff)
  define d where "d = bitlen p - bitlen q"
  have e: "bexp x = (if 2 powi d \<le> \<bar>x\<bar> then d else d - 1)"
    by (simp add: bexp_def pq d_def Let_def)
  note bp = two_powi_bitlen [OF p] and bq = two_powi_bitlen [OF q]
  have qpos: "(0::rat) < of_int q" using q by simp
  have up: "\<bar>x\<bar> < 2 powi (d + 1)"
  proof -
    have "of_int p / of_int q < (2::rat) powi bitlen p / 2 powi (bitlen q - 1)"
      using p bp(2) bq(1) by (intro frac_less) simp_all
    also have "\<dots> = 2 powi (bitlen p - (bitlen q - 1))"
      by (simp only: power_int_diff [of "2::rat", symmetric, simplified])
    also have "bitlen p - (bitlen q - 1) = d + 1" by (simp add: d_def)
    finally show ?thesis by (simp only: x)
  qed
  have lo: "2 powi (d - 1) \<le> \<bar>x\<bar>"
  proof -
    have "(2::rat) powi (bitlen p - 1) / 2 powi bitlen q \<le> of_int p / of_int q"
      using p bp(1) bq(2) qpos by (intro frac_le) simp_all
    moreover have "(2::rat) powi (bitlen p - 1) / 2 powi bitlen q = 2 powi (bitlen p - 1 - bitlen q)"
      by (simp only: power_int_diff [of "2::rat", symmetric, simplified])
    moreover have "bitlen p - 1 - bitlen q = d - 1" by (simp add: d_def)
    ultimately show ?thesis by (simp only: x)
  qed
  show "2 powi bexp x \<le> \<bar>x\<bar>" using e lo by (simp split: if_splits)
  show "\<bar>x\<bar> < 2 powi (bexp x + 1)" using e up by (auto split: if_splits simp: not_le)
qed

lemma roundHalfEven_error: "\<bar>of_int (roundHalfEven y) - y\<bar> \<le> 1 / 2"
proof -
  have "of_int \<lfloor>y\<rfloor> \<le> y" "y < of_int \<lfloor>y\<rfloor> + 1" by linarith+
  then show ?thesis by (auto simp: roundHalfEven_def Let_def)
qed

lemma roundHalfEven_nearest:
  assumes "\<bar>y - of_int m\<bar> < 1 / 2"
  shows "roundHalfEven y = m"
proof -
  have f: "of_int \<lfloor>y\<rfloor> \<le> y" "y < of_int \<lfloor>y\<rfloor> + 1" by linarith+
  have "of_int (m - 1) \<le> y" "y < of_int (m + 1)" using assms by (simp_all, linarith+)
  then have "m - 1 \<le> \<lfloor>y\<rfloor>" "\<lfloor>y\<rfloor> < m + 1" by (simp_all only: le_floor_iff floor_less_iff)
  then have "\<lfloor>y\<rfloor> = m \<or> \<lfloor>y\<rfloor> = m - 1" by linarith
  then show ?thesis
  proof
    assume "\<lfloor>y\<rfloor> = m"
    with assms f show ?thesis by (auto simp: roundHalfEven_def Let_def abs_less_iff)
  next
    assume "\<lfloor>y\<rfloor> = m - 1"
    with assms f show ?thesis by (auto simp: roundHalfEven_def Let_def abs_less_iff)
  qed
qed

lemma roundHalfEven_of_int [simp]: "roundHalfEven (of_int k) = k"
  by (rule roundHalfEven_nearest) simp

lemma fl_error:
  assumes "x \<noteq> 0"
  shows "\<bar>fl x - x\<bar> \<le> 2 powi (bexp x - 53)"
proof -
  define P :: rat where "P = 2 powi (bexp x - 52)"
  have P: "0 < P" by (simp add: P_def)
  have fl: "fl x = of_int (roundHalfEven (x / P)) * P"
    using assms by (simp add: fl_def P_def Let_def)
  have "\<bar>of_int (roundHalfEven (x / P)) - x / P\<bar> * P \<le> (1 / 2) * P"
    using roundHalfEven_error [of "x / P"] P by (intro mult_right_mono) simp_all
  moreover have "\<bar>of_int (roundHalfEven (x / P)) - x / P\<bar> * P
      = \<bar>of_int (roundHalfEven (x / P)) * P - x\<bar>"
  proof -
    have "\<bar>of_int (roundHalfEven (x / P)) - x / P\<bar> * P
        = \<bar>(of_int (roundHalfEven (x / P)) - x / P) * P\<bar>"
      using P by (simp add: abs_mult)
    also have "(of_int (roundHalfEven (x / P)) - x / P) * P
        = of_int (roundHalfEven (x / P)) * P - x"
      using P by (simp add: algebra_simps)
    finally show ?thesis .
  qed
  moreover have "(1 / 2) * P = 2 powi (bexp x - 53)"
  proof -
    have "(2::rat) powi (bexp x - 52) = 2 powi ((bexp x - 53) + 1)" by simp
    also have "\<dots> = 2 powi (bexp x - 53) * 2" by (simp only: power_int_add_1 [of "2::rat", simplified])
    finally show ?thesis by (simp add: P_def)
  qed
  ultimately show ?thesis by (simp only: fl)
qed

lemma fl_rel_error: "\<bar>fl x - x\<bar> \<le> \<bar>x\<bar> / 2 ^ 53"
proof (cases "x = 0")
  case True
  then show ?thesis by (simp add: fl_def)
next
  case False
  have "(2::rat) powi (bexp x - 53) = 2 powi bexp x / 2 powi 53"
    by (simp only: power_int_diff [of "2::rat", simplified])
  also have "\<dots> \<le> \<bar>x\<bar> / 2 powi 53"
    using bexp_bounds(1) [OF False] by (intro divide_right_mono) simp_all
  finally show ?thesis using fl_error [OF False] by simp
qed

lemma bexp_less:
  assumes "x \<noteq> 0" and "\<bar>x\<bar> < 2 powi k"
  shows "bexp x < k"
proof (rule ccontr)
  assume "\<not> bexp x < k"
  then have "(2::rat) powi k \<le> 2 powi bexp x" by (intro power_int_increasing) simp_all
  with bexp_bounds(1) [OF assms(1)] assms(2) show False by simp
qed

lemma fl_of_int:
  assumes "\<bar>n\<bar> < 2 ^ 53"
  shows "fl (of_int n) = of_int n"
proof (cases "n = 0")
  case True
  then show ?thesis by (simp add: fl_def)
next
  case False
  define x :: rat where "x = of_int n"
  have x0: "x \<noteq> 0" using False by (simp add: x_def)
  have "\<bar>x\<bar> < 2 powi 53"
  proof -
    have "(of_int \<bar>n\<bar> :: rat) < of_int (2 ^ 53)" using assms by (simp only: of_int_less_iff)
    then show ?thesis by (simp add: x_def)
  qed
  then have "bexp x < 53" using x0 by (rule bexp_less [rotated])
  then have "bexp x - 52 = - int (nat (52 - bexp x))" by simp
  then obtain k :: nat where k: "bexp x - 52 = - int k" ..
  have q: "x / 2 powi (- int k) = of_int (n * 2 ^ k)"
    by (simp add: x_def power_int_minus field_simps)
  have "fl x = of_int (roundHalfEven (x / 2 powi (- int k))) * 2 powi (- int k)"
    using x0 by (simp add: fl_def Let_def k)
  also have "\<dots> = of_int (n * 2 ^ k) * 2 powi (- int k)"
    by (simp only: q roundHalfEven_of_int)
  also have "\<dots> = x" by (simp add: x_def power_int_minus field_simps)
  finally show ?thesis by (simp add: x_def)
qed

lemma roundHalfEven_nonneg: "0 \<le> y \<Longrightarrow> 0 \<le> roundHalfEven y"
  by (auto simp: roundHalfEven_def Let_def)

lemma fl_nonneg: "0 \<le> x \<Longrightarrow> 0 \<le> fl x"
  by (simp add: fl_def Let_def roundHalfEven_nonneg zero_le_divide_iff)

section \<open>Properties of the client-side filters\<close>

lemma unat_byte: "unat (w :: 8 word) \<le> 255"
proof -
  have "unat w < 2 ^ LENGTH(8)" by (rule unsigned_less)
  then show ?thesis by simp
qed

lemma byteValue_bounds: "0 \<le> byteValue w" "byteValue w \<le> 255"
proof -
  show "0 \<le> byteValue w" unfolding byteValue_def by (rule of_nat_0_le_iff)
  have "(of_nat (unat w) :: rat) \<le> of_nat 255" using unat_byte [of w] by (simp only: of_nat_le_iff)
  then show "byteValue w \<le> 255" unfolding byteValue_def by simp
qed

lemma fl_of_nat: "n < 2 ^ 53 \<Longrightarrow> fl (of_nat n) = of_nat n"
  using fl_of_int [of "int n"] by simp

lemma byte_sum:
  "fadd (fadd (byteValue r) (byteValue g)) (byteValue b) = of_nat (unat r + unat g + unat b)"
proof -
  have 1: "byteValue r + byteValue g = of_nat (unat r + unat g)"
    unfolding byteValue_def by (simp only: of_nat_add)
  have 2: "unat r + unat g < 2 ^ 53" using unat_byte [of r] unat_byte [of g] by simp
  have 3: "of_nat (unat r + unat g) + byteValue b = (of_nat (unat r + unat g + unat b) :: rat)"
    unfolding byteValue_def by (simp only: of_nat_add)
  have 4: "unat r + unat g + unat b < 2 ^ 53"
    using unat_byte [of r] unat_byte [of g] unat_byte [of b] by simp
  show ?thesis
    unfolding fadd_def 1 fl_of_nat [OF 2] 3 fl_of_nat [OF 4] ..
qed

lemma toUint8Clamp_near:
  assumes "\<bar>y - of_int m\<bar> < 1 / 2" and "0 \<le> m" and "m \<le> 255"
  shows "toUint8Clamp y = word_of_int m"
proof -
  have r: "roundHalfEven y = m" using assms(1) by (rule roundHalfEven_nearest)
  show ?thesis
  proof (cases "y \<le> 0")
    case True
    with assms(1) have "of_int m < (1::rat)" by linarith
    then have "m < 1" by (simp only: of_int_less_1_iff)
    with assms(2) have "m = 0" by simp
    with True show ?thesis by (simp add: toUint8Clamp_def)
  next
    case False
    show ?thesis
    proof (cases "255 \<le> y")
      case True
      with assms(1) have "(of_int 254 :: rat) < of_int m" by linarith
      then have "254 < m" by (simp only: of_int_less_iff)
      with assms(3) have "m = 255" by simp
      with True False show ?thesis by (simp add: toUint8Clamp_def)
    next
      case False
      with \<open>\<not> y \<le> 0\<close> r show ?thesis by (simp add: toUint8Clamp_def)
    qed
  qed
qed

lemma gray_round:
  assumes "s \<le> 765"
  shows "toUint8Clamp (fl (of_nat s / 3)) = word_of_nat ((s + 1) div 3)"
proof -
  define x :: rat where "x = of_nat s / 3"
  define m :: int where "m = int ((s + 1) div 3)"
  have x: "0 \<le> x" "x \<le> 255" using assms by (simp_all add: x_def)
  have "\<bar>fl x - x\<bar> \<le> \<bar>x\<bar> / 2 ^ 53" by (rule fl_rel_error)
  also have "\<dots> \<le> 255 / 2 ^ 53" using x by (intro divide_right_mono) simp_all
  finally have e1: "\<bar>fl x - x\<bar> \<le> 255 / 2 ^ 53" .
  have "3 * ((s + 1) div 3) \<le> s + 1" "s \<le> 3 * ((s + 1) div 3) + 1" by presburger+
  then have "3 * m \<le> int s + 1" "int s - 1 \<le> 3 * m" unfolding m_def by linarith+
  then have "(of_int (3 * m) :: rat) \<le> of_int (int s + 1)" "(of_int (int s - 1) :: rat) \<le> of_int (3 * m)"
    by (simp_all only: of_int_le_iff)
  then have "of_int m - 1 / 3 \<le> x" "x \<le> of_int m + 1 / 3" by (simp_all add: x_def)
  then have e2: "\<bar>x - of_int m\<bar> \<le> 1 / 3" by linarith
  have "\<bar>fl x - of_int m\<bar> \<le> \<bar>fl x - x\<bar> + \<bar>x - of_int m\<bar>" by simp
  also have "\<dots> \<le> 255 / 2 ^ 53 + 1 / 3" using e1 e2 by (rule add_mono)
  also have "\<dots> < 1 / 2" by simp
  finally have near: "\<bar>fl x - of_int m\<bar> < 1 / 2" .
  have "0 \<le> m" "m \<le> 255" using assms by (simp_all add: m_def)
  with near have "toUint8Clamp (fl x) = word_of_int m" by (rule toUint8Clamp_near)
  then show ?thesis by (simp add: x_def m_def)
qed

lemma grayscaleChannels_eq:
  "grayscaleChannels r g b =
     (word_of_nat ((unat r + unat g + unat b + 1) div 3),
      word_of_nat ((unat r + unat g + unat b + 1) div 3),
      word_of_nat ((unat r + unat g + unat b + 1) div 3))"
proof -
  have "unat r + unat g + unat b \<le> 765"
    using unat_byte [of r] unat_byte [of g] unat_byte [of b] by simp
  then have "toUint8Clamp (fl (of_nat (unat r + unat g + unat b) / 3))
      = word_of_nat ((unat r + unat g + unat b + 1) div 3)"
    by (rule gray_round)
  then show ?thesis
    unfolding grayscaleChannels_def Let_def byte_sum fdiv_def by (simp only:)
qed

lemma length_canvasFilterLoop: "length (canvasFilterLoop f d) = length d"
  by (induction f d rule: canvasFilterLoop.induct) (simp_all split: prod.splits)

lemma loop_pixel:
  "4 * k + 3 < length d \<Longrightarrow> pixelAt (canvasFilterLoop f d) k = filterPixel f (pixelAt d k)"
proof (induction f d arbitrary: k rule: canvasFilterLoop.induct)
  case (1 f r g b a rest)
  show ?case
  proof (cases k)
    case 0
    then show ?thesis by (simp add: pixelAt_def filterPixel_def split: prod.splits)
  next
    case (Suc j)
    with "1.prems" have j: "4 * j + 3 < length rest" by simp
    obtain r' g' b' where c: "filterChannels f r g b = (r', g', b')"
      by (cases "filterChannels f r g b")
    have "pixelAt (canvasFilterLoop f (r # g # b # a # rest)) k
        = pixelAt (canvasFilterLoop f rest) j"
      by (simp add: pixelAt_def c Suc add.commute)
    also have "\<dots> = filterPixel f (pixelAt rest j)" using "1.IH" [OF c [symmetric] refl j] .
    also have "pixelAt rest j = pixelAt (r # g # b # a # rest) k"
      by (simp add: pixelAt_def Suc add.commute)
    finally show ?thesis .
  qed
qed simp_all

lemma fl_bound:
  assumes "0 \<le> x" and "x \<le> B"
  shows "\<bar>fl x - x\<bar> \<le> B / 2 ^ 53"
proof -
  have "\<bar>fl x - x\<bar> \<le> \<bar>x\<bar> / 2 ^ 53" by (rule fl_rel_error)
  also have "\<dots> \<le> B / 2 ^ 53" using assms by (intro divide_right_mono) simp_all
  finally show ?thesis .
qed

lemma fmul_coefficient:
  fixes c :: rat
  assumes "0 \<le> c" and "c \<le> 1"
  shows "\<bar>fmul (byteValue w) (fl c) - byteValue w * c\<bar> \<le> 512 / 2 ^ 53"
    and "0 \<le> fmul (byteValue w) (fl c)"
    and "fmul (byteValue w) (fl c) \<le> 256"
proof -
  define x where "x = byteValue w"
  have x: "0 \<le> x" "x \<le> 255" by (simp_all add: x_def byteValue_bounds)
  have c1: "\<bar>fl c - c\<bar> \<le> 1 / 2 ^ 53" using fl_bound [OF assms] .
  have c0: "0 \<le> fl c" using assms(1) by (rule fl_nonneg)
  have "\<bar>x * fl c - x * c\<bar> = x * \<bar>fl c - c\<bar>"
    using x(1) by (simp add: abs_mult flip: right_diff_distrib)
  also have "\<dots> \<le> 255 * (1 / 2 ^ 53)" using x c1 by (intro mult_mono) simp_all
  finally have e1: "\<bar>x * fl c - x * c\<bar> \<le> 255 / 2 ^ 53" by simp
  have xc: "0 \<le> x * c" "x * c \<le> 255"
    using x assms mult_mono [of x 255 c 1] by simp_all
  have p0: "0 \<le> x * fl c" using x c0 by simp
  have small: "(255::rat) / 2 ^ 53 \<le> 1" by simp
  have p1: "x * fl c \<le> 256" using e1 xc small by linarith
  have e2: "\<bar>fl (x * fl c) - x * fl c\<bar> \<le> 256 / 2 ^ 53" using fl_bound [OF p0 p1] .
  show "\<bar>fmul (byteValue w) (fl c) - byteValue w * c\<bar> \<le> 512 / 2 ^ 53"
    using e1 e2 unfolding fmul_def x_def by linarith
  show "0 \<le> fmul (byteValue w) (fl c)" unfolding fmul_def x_def [symmetric] using p0 by (rule fl_nonneg)
  have small2: "(255::rat) / 2 ^ 53 + 256 / 2 ^ 53 \<le> 1" by simp
  show "fmul (byteValue w) (fl c) \<le> 256"
    using e1 e2 xc small2 unfolding fmul_def x_def by linarith
qed

lemma sepia_sum_error:
  fixes c1 c2 c3 :: rat and r g b :: "8 word"
  assumes "0 \<le> c1" "c1 \<le> 1" "0 \<le> c2" "c2 \<le> 1" "0 \<le> c3" "c3 \<le> 1"
  defines "v \<equiv> fadd (fadd (fmul (byteValue r) (fl c1)) (fmul (byteValue g) (fl c2)))
                     (fmul (byteValue b) (fl c3))"
  shows "\<bar>v - (byteValue r * c1 + byteValue g * c2 + byteValue b * c3)\<bar> \<le> 1 / 2 ^ 41"
    and "0 \<le> v"
proof -
  define p1 where "p1 = fmul (byteValue r) (fl c1)"
  define p2 where "p2 = fmul (byteValue g) (fl c2)"
  define p3 where "p3 = fmul (byteValue b) (fl c3)"
  note f1 = fmul_coefficient [OF assms(1,2), of r, folded p1_def]
  note f2 = fmul_coefficient [OF assms(3,4), of g, folded p2_def]
  note f3 = fmul_coefficient [OF assms(5,6), of b, folded p3_def]
  have s0: "0 \<le> p1 + p2" "p1 + p2 \<le> 512" using f1 f2 by simp_all
  have e1: "\<bar>fl (p1 + p2) - (p1 + p2)\<bar> \<le> 512 / 2 ^ 53" using fl_bound [OF s0] .
  have t0: "0 \<le> fl (p1 + p2) + p3" using fl_nonneg [OF s0(1)] f3(2) by simp
  have small: "(512::rat) / 2 ^ 53 \<le> 1" by simp
  have t1: "fl (p1 + p2) + p3 \<le> 1024" using e1 s0 f3(3) small by linarith
  have e2: "\<bar>fl (fl (p1 + p2) + p3) - (fl (p1 + p2) + p3)\<bar> \<le> 1024 / 2 ^ 53"
    using fl_bound [OF t0 t1] .
  have v: "v = fl (fl (p1 + p2) + p3)" by (simp add: v_def fadd_def p1_def p2_def p3_def)
  have "\<bar>v - (byteValue r * c1 + byteValue g * c2 + byteValue b * c3)\<bar> \<le> 3072 / 2 ^ 53"
    unfolding v using e1 e2 f1(1) f2(1) f3(1) by linarith
  also have "\<dots> \<le> 1 / 2 ^ 41" by simp
  finally show "\<bar>v - (byteValue r * c1 + byteValue g * c2 + byteValue b * c3)\<bar> \<le> 1 / 2 ^ 41" .
  show "0 \<le> v" unfolding v using t0 by (rule fl_nonneg)
qed

lemma unat_word_of_int_byte:
  assumes "0 \<le> m" and "m \<le> 255"
  shows "unat (word_of_int m :: 8 word) = nat m"
proof -
  have "take_bit 8 m = m" using assms by (simp add: take_bit_int_eq_self)
  then show ?thesis by (simp add: unsigned_of_int)
qed

lemma sepia_store:
  fixes n :: nat and v :: rat
  assumes "0 \<le> v" and "\<bar>v - of_nat n / 1000\<bar> \<le> 1 / 2 ^ 41"
  shows "\<bar>of_nat (unat (toUint8Clamp (min 255 v))) - min 255 (of_nat n / 1000)\<bar> \<le> (1 / 2 :: rat)"
proof -
  define E :: rat where "E = min 255 (of_nat n / 1000)"
  define y :: rat where "y = min 255 v"
  have tiny: "(1::rat) / 2 ^ 41 \<le> 1 / 1000000" by simp
  have E0: "0 \<le> E" "E \<le> 255" by (simp_all add: E_def)
  have y0: "0 \<le> y" "y \<le> 255" using assms(1) by (simp_all add: y_def)
  have d: "\<bar>y - E\<bar> \<le> 1 / 2 ^ 41" using assms(2) unfolding y_def E_def by linarith
  show ?thesis
  proof (cases "y \<le> 0")
    case True
    then have "toUint8Clamp y = 0" by (simp add: toUint8Clamp_def)
    then show ?thesis using True d E0 tiny unfolding y_def [symmetric] E_def [symmetric] by (simp; linarith)
  next
    case pos: False
    show ?thesis
    proof (cases "255 \<le> y")
      case True
      then have "toUint8Clamp y = 255" using pos by (simp add: toUint8Clamp_def)
      then show ?thesis using True d E0 y0 tiny unfolding y_def [symmetric] E_def [symmetric]
        by (simp; linarith)
    next
      case False
      define m where "m = roundHalfEven y"
      have w: "toUint8Clamp y = word_of_int m" using pos False by (simp add: toUint8Clamp_def m_def)
      have r: "\<bar>of_int m - y\<bar> \<le> 1 / 2" unfolding m_def by (rule roundHalfEven_error)
      have "- 1 < (of_int m :: rat)" "(of_int m :: rat) < 256"
        using r pos False by linarith+
      then have "(of_int (- 1) :: rat) < of_int m" "(of_int m :: rat) < of_int 256"
        by simp_all
      then have "- 1 < m" "m < 256" by (simp_all only: of_int_less_iff)
      then have m: "0 \<le> m" "m \<le> 255" by simp_all
      have u: "(of_nat (unat (toUint8Clamp y)) :: rat) = of_int m"
        unfolding w unat_word_of_int_byte [OF m] using m by simp
      have near: "\<bar>of_int m - E\<bar> \<le> 1 / 2"
      proof (cases "255000 \<le> n")
        case True
        then have "(255::rat) \<le> of_nat n / 1000" by simp
        then have E: "E = 255" by (simp add: E_def)
        have "254 < (of_int m :: rat)" using r d tiny E by linarith
        then have "(of_int 254 :: rat) < of_int m" by simp
        then have "254 < m" by (simp only: of_int_less_iff)
        with m have "m = 255" by simp
        with E show ?thesis by simp
      next
        case False
        then have "of_nat n / 1000 \<le> (255::rat)" by simp
        then have E: "E = of_nat n / 1000" by (simp add: E_def)
        have "\<bar>of_int m - E\<bar> < 501 / 1000" using r d tiny by linarith
        then have "1000 * of_int m - of_nat n < (501::rat)" "of_nat n - 1000 * of_int m < (501::rat)"
          unfolding E by linarith+
        then have "\<bar>(of_int (1000 * m - int n) :: rat)\<bar> < of_int 501"
          by (simp add: abs_less_iff)
        then have "(of_int \<bar>1000 * m - int n\<bar> :: rat) < of_int 501" by (simp only: of_int_abs)
        then have "\<bar>1000 * m - int n\<bar> < 501" by (simp only: of_int_less_iff)
        then have "\<bar>1000 * m - int n\<bar> \<le> 500" by simp
        then have "(of_int \<bar>1000 * m - int n\<bar> :: rat) \<le> of_int 500" by (simp only: of_int_le_iff)
        then have "\<bar>1000 * of_int m - (of_nat n :: rat)\<bar> \<le> 500" by simp
        then show ?thesis unfolding E by linarith
      qed
      show ?thesis unfolding y_def [symmetric] E_def [symmetric] u by (rule near)
    qed
  qed
qed

lemma unat_word_of_nat_byte: "m \<le> 255 \<Longrightarrow> unat (word_of_nat m :: 8 word) = m"
  by (simp add: unat_of_nat)

lemma gray_level_bound: "(unat (r::8 word) + unat (g::8 word) + unat (b::8 word) + 1) div 3 \<le> 255"
  using unat_byte [of r] unat_byte [of g] unat_byte [of b] by simp

text \<open>
  Claim C6. For every whole pixel \<open>(r, g, b, a)\<close> of the image data, the grayscale filter
  stores one value \<open>gray\<close> in the red, green and blue channels and leaves the alpha channel
  as it is. \<open>gray\<close> is the unweighted average \<open>(r + g + b) / 3\<close> as the byte array holds it:
  the integer nearest to the average, \<open>(r + g + b + 1) div 3\<close>, at most \<open>1/3\<close> away from it.
\<close>

theorem grayscale_average:
  assumes "4 * k + 3 < length d" and "pixelAt d k = (r, g, b, a)"
  shows "\<exists>gray. pixelAt (canvasFilterLoop Grayscale d) k = (gray, gray, gray, a)
           \<and> unat gray = (unat r + unat g + unat b + 1) div 3
           \<and> \<bar>byteValue gray - (byteValue r + byteValue g + byteValue b) / 3\<bar> \<le> 1 / 3"
proof -
  define m where "m = (unat r + unat g + unat b + 1) div 3"
  define gray :: "8 word" where "gray = word_of_nat m"
  have m: "m \<le> 255" unfolding m_def by (rule gray_level_bound)
  have u: "unat gray = m" unfolding gray_def using m by (rule unat_word_of_nat_byte)
  have "pixelAt (canvasFilterLoop Grayscale d) k = filterPixel Grayscale (pixelAt d k)"
    using assms(1) by (rule loop_pixel)
  also have "\<dots> = (gray, gray, gray, a)"
    by (simp add: assms(2) filterPixel_def filterChannels_def grayscaleChannels_eq gray_def m_def)
  finally have 1: "pixelAt (canvasFilterLoop Grayscale d) k = (gray, gray, gray, a)" .
  have "3 * m \<le> unat r + unat g + unat b + 1" "unat r + unat g + unat b \<le> 3 * m + 1"
    unfolding m_def by presburger+
  then have "(of_nat (3 * m) :: rat) \<le> of_nat (unat r + unat g + unat b + 1)"
    "(of_nat (unat r + unat g + unat b) :: rat) \<le> of_nat (3 * m + 1)"
    by (simp_all only: of_nat_le_iff)
  then have "3 * (of_nat m :: rat) \<le> of_nat (unat r) + of_nat (unat g) + of_nat (unat b) + 1"
    "(of_nat (unat r) + of_nat (unat g) + of_nat (unat b) :: rat) \<le> 3 * of_nat m + 1"
    by (simp_all only: of_nat_add of_nat_mult of_nat_numeral of_nat_1)
  then have "(of_nat m :: rat) - 1 / 3 \<le> (of_nat (unat r) + of_nat (unat g) + of_nat (unat b)) / 3"
    "(of_nat (unat r) + of_nat (unat g) + of_nat (unat b)) / 3 \<le> (of_nat m :: rat) + 1 / 3"
    by (simp_all add: field_simps)
  then have 3: "\<bar>byteValue gray - (byteValue r + byteValue g + byteValue b) / 3\<bar> \<le> 1 / 3"
    unfolding byteValue_def u by (simp only: abs_le_iff) linarith
  from 1 u 3 show ?thesis unfolding m_def by blast
qed

theorem grayscale_average_witness:
  "4 * 1 + 3 < length [10, 20, 30, 255, 0, 0, 2, 7 :: 8 word]
   \<and> pixelAt [10, 20, 30, 255, 0, 0, 2, 7] 1 = (0, 0, 2, 7)
   \<and> pixelAt (canvasFilterLoop Grayscale [10, 20, 30, 255, 0, 0, 2, 7]) 1 = (1, 1, 1, 7)"
proof -
  have h1: "4 * 1 + 3 < length [10, 20, 30, 255, 0, 0, 2, 7 :: 8 word]" by simp
  have h2: "pixelAt [10, 20, 30, 255, 0, 0, 2, 7] 1 = (0, 0, 2, 7 :: 8 word)"
    by (simp add: pixelAt_def)
  from grayscale_average [OF h1 h2] obtain gray :: "8 word" where
    g: "pixelAt (canvasFilterLoop Grayscale [10, 20, 30, 255, 0, 0, 2, 7]) 1 = (gray, gray, gray, 7)"
    and u: "unat gray = (unat (0 :: 8 word) + unat (0 :: 8 word) + unat (2 :: 8 word) + 1) div 3"
    by blast
  from u have "unat gray = unat (1 :: 8 word)" by simp
  then have "gray = 1" by (simp only: word_unat_eq_iff)
  with g h1 h2 show ?thesis by simp
qed

lemma sepia_channel:
  fixes c1 c2 c3 :: nat and r g b :: "8 word"
  assumes "c1 \<le> 1000" "c2 \<le> 1000" "c3 \<le> 1000"
  defines "v \<equiv> min 255 (fadd (fadd (fmul (byteValue r) (fl (of_nat c1 / 1000)))
                                   (fmul (byteValue g) (fl (of_nat c2 / 1000))))
                             (fmul (byteValue b) (fl (of_nat c3 / 1000))))"
  shows "\<bar>byteValue (toUint8Clamp v)
          - min 255 ((of_nat c1 * byteValue r + of_nat c2 * byteValue g + of_nat c3 * byteValue b) / 1000)\<bar>
         \<le> 1 / 2"
proof -
  define n where "n = c1 * unat r + c2 * unat g + c3 * unat b"
  have c: "(0::rat) \<le> of_nat c1 / 1000" "(of_nat c1 :: rat) / 1000 \<le> 1"
    "(0::rat) \<le> of_nat c2 / 1000" "(of_nat c2 :: rat) / 1000 \<le> 1"
    "(0::rat) \<le> of_nat c3 / 1000" "(of_nat c3 :: rat) / 1000 \<le> 1"
    using assms(1-3) by simp_all
  have E: "byteValue r * (of_nat c1 / 1000) + byteValue g * (of_nat c2 / 1000)
         + byteValue b * (of_nat c3 / 1000) = (of_nat n :: rat) / 1000"
    unfolding byteValue_def n_def by (simp only: of_nat_add of_nat_mult) (simp add: field_simps)
  have E2: "(of_nat c1 * byteValue r + of_nat c2 * byteValue g + of_nat c3 * byteValue b) / 1000
      = (of_nat n :: rat) / 1000"
    unfolding byteValue_def n_def by (simp only: of_nat_add of_nat_mult)
  note s = sepia_sum_error [OF c, of r g b, unfolded E]
  show ?thesis
    unfolding v_def E2 byteValue_def [of "toUint8Clamp _"] using s(2) s(1) by (rule sepia_store)
qed

text \<open>
  Claim C7. For every whole pixel \<open>(r, g, b, a)\<close> of the image data, the sepia filter leaves
  the alpha channel as it is and stores in each colour channel a byte that is a nearest
  integer to the stated formula clamped at 255: for red \<open>min 255 (0.393 r + 0.769 g + 0.189 b)\<close>,
  for green \<open>min 255 (0.349 r + 0.686 g + 0.168 b)\<close>, for blue
  \<open>min 255 (0.272 r + 0.534 g + 0.131 b)\<close>, the formulas read over the rationals. (The code
  computes them in binary64 arithmetic; the rounding errors of that arithmetic never move
  the stored byte away from a nearest integer of the exact value.)
\<close>

theorem sepia_formula:
  assumes "4 * k + 3 < length d" and "pixelAt d k = (r, g, b, a)"
  shows "\<exists>r' g' b'. pixelAt (canvasFilterLoop Sepia d) k = (r', g', b', a)
           \<and> \<bar>byteValue r'
                - min 255 ((393 * byteValue r + 769 * byteValue g + 189 * byteValue b) / 1000)\<bar> \<le> 1 / 2
           \<and> \<bar>byteValue g'
                - min 255 ((349 * byteValue r + 686 * byteValue g + 168 * byteValue b) / 1000)\<bar> \<le> 1 / 2
           \<and> \<bar>byteValue b'
                - min 255 ((272 * byteValue r + 534 * byteValue g + 131 * byteValue b) / 1000)\<bar> \<le> 1 / 2"
proof -
  have "pixelAt (canvasFilterLoop Sepia d) k = filterPixel Sepia (pixelAt d k)"
    using assms(1) by (rule loop_pixel)
  also have "\<dots> = (toUint8Clamp (sepiaR r g b), toUint8Clamp (sepiaG r g b),
                    toUint8Clamp (sepiaB r g b), a)"
    by (simp add: assms(2) filterPixel_def filterChannels_def sepiaChannels_def)
  finally have 1: "pixelAt (canvasFilterLoop Sepia d) k
      = (toUint8Clamp (sepiaR r g b), toUint8Clamp (sepiaG r g b), toUint8Clamp (sepiaB r g b), a)" .
  have R: "\<bar>byteValue (toUint8Clamp (sepiaR r g b))
      - min 255 ((393 * byteValue r + 769 * byteValue g + 189 * byteValue b) / 1000)\<bar> \<le> 1 / 2"
    using sepia_channel [of 393 769 189 r g b] by (simp add: sepiaR_def)
  have G: "\<bar>byteValue (toUint8Clamp (sepiaG r g b))
      - min 255 ((349 * byteValue r + 686 * byteValue g + 168 * byteValue b) / 1000)\<bar> \<le> 1 / 2"
    using sepia_channel [of 349 686 168 r g b] by (simp add: sepiaG_def)
  have B: "\<bar>byteValue (toUint8Clamp (sepiaB r g b))
      - min 255 ((272 * byteValue r + 534 * byteValue g + 131 * byteValue b) / 1000)\<bar> \<le> 1 / 2"
    using sepia_channel [of 272 534 131 r g b] by (simp add: sepiaB_def)
  from 1 R G B show ?thesis by blast
qed

lemma byte_from_bound:
  assumes "\<bar>byteValue w - q\<bar> \<le> 1 / 2" and "of_nat m - 1 / 2 < q" and "q < of_nat m + 1 / 2"
  shows "w = word_of_nat m"
proof -
  have "(of_nat (unat w) :: rat) < of_nat m + 1" "(of_nat m :: rat) < of_nat (unat w) + 1"
    using assms unfolding byteValue_def by linarith+
  then have "(of_nat (unat w) :: rat) < of_nat (m + 1)" "(of_nat m :: rat) < of_nat (unat w + 1)"
    by simp_all
  then have "unat w < m + 1" "m < unat w + 1" by (simp_all only: of_nat_less_iff)
  then have "unat w = m" by simp
  moreover from this have "m \<le> 255" using unat_byte [of w] by simp
  ultimately have "unat w = unat (word_of_nat m :: 8 word)"
    by (simp only: unat_word_of_nat_byte)
  then show ?thesis by (simp only: word_unat_eq_iff)
qed

theorem sepia_formula_witness:
  "4 * 0 + 3 < length [10, 20, 30, 40 :: 8 word]
   \<and> pixelAt [10, 20, 30, 40] 0 = (10, 20, 30, 40)
   \<and> pixelAt (canvasFilterLoop Sepia [10, 20, 30, 40]) 0 = (25, 22, 17, 40)"
proof -
  have h1: "4 * 0 + 3 < length [10, 20, 30, 40 :: 8 word]" by simp
  have h2: "pixelAt [10, 20, 30, 40] 0 = (10, 20, 30, 40 :: 8 word)" by (simp add: pixelAt_def)
  have v: "byteValue 10 = 10" "byteValue 20 = 20" "byteValue 30 = 30"
    by (simp_all add: byteValue_def)
  from sepia_formula [OF h1 h2] obtain r' g' b' :: "8 word" where
    p: "pixelAt (canvasFilterLoop Sepia [10, 20, 30, 40]) 0 = (r', g', b', 40)"
    and R: "\<bar>byteValue r' - min 255 ((393 * byteValue 10 + 769 * byteValue 20 + 189 * byteValue 30) / 1000)\<bar> \<le> 1 / 2"
    and G: "\<bar>byteValue g' - min 255 ((349 * byteValue 10 + 686 * byteValue 20 + 168 * byteValue 30) / 1000)\<bar> \<le> 1 / 2"
    and B: "\<bar>byteValue b' - min 255 ((272 * byteValue 10 + 534 * byteValue 20 + 131 * byteValue 30) / 1000)\<bar> \<le> 1 / 2"
    by blast
  have "r' = word_of_nat 25" using R by (rule byte_from_bound) (simp_all add: v)
  moreover have "g' = word_of_nat 22" using G by (rule byte_from_bound) (simp_all add: v)
  moreover have "b' = word_of_nat 17" using B by (rule byte_from_bound) (simp_all add: v)
  ultimately show ?thesis using p h1 h2 by simp
qed

lemma grayscaleChannels_gray: "grayscaleChannels w w w = (w, w, w)"
proof -
  have "(unat w + unat w + unat w + 1) div 3 = unat w" by presburger
  then show ?thesis by (simp add: grayscaleChannels_eq)
qed

lemma grayscaleChannels_same:
  "grayscaleChannels r g b = (x, y, z) \<Longrightarrow> x = y \<and> y = z"
  by (auto simp: grayscaleChannels_def Let_def)

lemma grayscale_loop_idempotent:
  "canvasFilterLoop Grayscale (canvasFilterLoop Grayscale d) = canvasFilterLoop Grayscale d"
proof (induction "Grayscale" d rule: canvasFilterLoop.induct)
  case (1 r g b a rest)
  obtain x y z where c: "grayscaleChannels r g b = (x, y, z)" by (cases "grayscaleChannels r g b")
  then have "y = x" "z = x" using grayscaleChannels_same by blast+
  with c 1 show ?case by (simp add: filterChannels_def grayscaleChannels_gray)
next
  case (2 r g b)
  obtain x y z where c: "grayscaleChannels r g b = (x, y, z)" by (cases "grayscaleChannels r g b")
  then have "y = x" "z = x" using grayscaleChannels_same by blast+
  with c show ?case by (simp add: filterChannels_def grayscaleChannels_gray)
qed simp_all

lemma sepiaChannels_from_bounds:
  fixes r g b :: "8 word" and x y z :: nat
  assumes "of_nat x - 1 / 2 < min 255 ((393 * byteValue r + 769 * byteValue g + 189 * byteValue b) / 1000)"
    and "min 255 ((393 * byteValue r + 769 * byteValue g + 189 * byteValue b) / 1000) < of_nat x + 1 / 2"
    and "of_nat y - 1 / 2 < min 255 ((349 * byteValue r + 686 * byteValue g + 168 * byteValue b) / 1000)"
    and "min 255 ((349 * byteValue r + 686 * byteValue g + 168 * byteValue b) / 1000) < of_nat y + 1 / 2"
    and "of_nat z - 1 / 2 < min 255 ((272 * byteValue r + 534 * byteValue g + 131 * byteValue b) / 1000)"
    and "min 255 ((272 * byteValue r + 534 * byteValue g + 131 * byteValue b) / 1000) < of_nat z + 1 / 2"
  shows "sepiaChannels r g b = (word_of_nat x, word_of_nat y, word_of_nat z)"
proof -
  have R: "\<bar>byteValue (toUint8Clamp (sepiaR r g b))
      - min 255 ((393 * byteValue r + 769 * byteValue g + 189 * byteValue b) / 1000)\<bar> \<le> 1 / 2"
    using sepia_channel [of 393 769 189 r g b] by (simp add: sepiaR_def)
  have G: "\<bar>byteValue (toUint8Clamp (sepiaG r g b))
      - min 255 ((349 * byteValue r + 686 * byteValue g + 168 * byteValue b) / 1000)\<bar> \<le> 1 / 2"
    using sepia_channel [of 349 686 168 r g b] by (simp add: sepiaG_def)
  have B: "\<bar>byteValue (toUint8Clamp (sepiaB r g b))
      - min 255 ((272 * byteValue r + 534 * byteValue g + 131 * byteValue b) / 1000)\<bar> \<le> 1 / 2"
    using sepia_channel [of 272 534 131 r g b] by (simp add: sepiaB_def)
  show ?thesis
    unfolding sepiaChannels_def
    using byte_from_bound [OF R assms(1,2)] byte_from_bound [OF G assms(3,4)]
      byte_from_bound [OF B assms(5,6)]
    by simp
qed

lemma byteValue_numerals: "byteValue 255 = 255" "byteValue 239 = 239" "byteValue 0 = 0"
  by (simp_all add: byteValue_def)

lemma sepia_white: "canvasFilterLoop Sepia [255, 255, 255, 255] = [255, 255, 239, 255]"
proof -
  have "sepiaChannels 255 255 255 = (word_of_nat 255, word_of_nat 255, word_of_nat 239)"
    by (rule sepiaChannels_from_bounds) (simp_all add: byteValue_numerals)
  then show ?thesis by (simp add: filterChannels_def)
qed

lemma sepia_white_twice: "canvasFilterLoop Sepia [255, 255, 239, 255] = [255, 255, 237, 255]"
proof -
  have "sepiaChannels 255 255 239 = (word_of_nat 255, word_of_nat 255, word_of_nat 237)"
    by (rule sepiaChannels_from_bounds) (simp_all add: byteValue_numerals)
  then show ?thesis by (simp add: filterChannels_def)
qed

lemma sepia_black: "filterPixel Sepia (0, 0, 0, a) = (0, 0, 0, a)"
proof -
  have "sepiaChannels 0 0 0 = (word_of_nat 0, word_of_nat 0, word_of_nat 0)"
    by (rule sepiaChannels_from_bounds) (simp_all add: byteValue_numerals)
  then show ?thesis by (simp add: filterPixel_def filterChannels_def)
qed

text \<open>
  Claim C8, as stated, fails for the grayscale filter: applying it to its own output gives the
  same data as a single application.
\<close>

theorem grayscale_twice_counterexample:
  "canvasFilterLoop Grayscale [10, 20, 30, 255] = [20, 20, 20, 255]
   \<and> canvasFilterLoop Grayscale (canvasFilterLoop Grayscale [10, 20, 30, 255])
       = canvasFilterLoop Grayscale [10, 20, 30, 255]"
  by (simp add: filterChannels_def grayscaleChannels_eq)

text \<open>
  Claim C8, amended. Both transforms are deterministic and local: the output pixel at a
  position is a function (\<open>filterPixel\<close>) of the input pixel at that position alone. The
  grayscale transform is idempotent on every image. The sepia transform is not idempotent:
  for a white pixel a second application differs from a single one; some pixels, such as a
  black one, are left unchanged by it.
\<close>

theorem filters_deterministic_idempotence:
  "(4 * k + 3 < length d \<longrightarrow> pixelAt (canvasFilterLoop f d) k = filterPixel f (pixelAt d k))
   \<and> canvasFilterLoop Grayscale (canvasFilterLoop Grayscale d) = canvasFilterLoop Grayscale d
   \<and> canvasFilterLoop Sepia (canvasFilterLoop Sepia [255, 255, 255, 255])
       \<noteq> canvasFilterLoop Sepia [255, 255, 255, 255]
   \<and> filterPixel Sepia (filterPixel Sepia (0, 0, 0, a)) = filterPixel Sepia (0, 0, 0, a)"
proof -
  have 1: "4 * k + 3 < length d \<longrightarrow>
      pixelAt (canvasFilterLoop f d) k = filterPixel f (pixelAt d k)"
    using loop_pixel [of k d f] by blast
  have 2: "canvasFilterLoop Sepia (canvasFilterLoop Sepia [255, 255, 255, 255])
       \<noteq> canvasFilterLoop Sepia [255, 255, 255, 255]"
    unfolding sepia_white sepia_white_twice by simp
  have 3: "filterPixel Sepia (filterPixel Sepia (0, 0, 0, a)) = filterPixel Sepia (0, 0, 0, a)"
    by (simp only: sepia_black)
  from 1 2 3 grayscale_loop_idempotent [of d] show ?thesis by blast
qed

theorem filters_deterministic_idempotence_witness:
  "4 * 1 + 3 < length [255, 255, 255, 255, 10, 20, 30, 40 :: 8 word]
   \<and> pixelAt (canvasFilterLoop Sepia [255, 255, 255, 255, 10, 20, 30, 40]) 1
       = filterPixel Sepia (10, 20, 30, 40)
   \<and> pixelAt (canvasFilterLoop Sepia [10, 20, 30, 40]) 0 = filterPixel Sepia (10, 20, 30, 40)"
proof -
  have h1: "4 * 1 + 3 < length [255, 255, 255, 255, 10, 20, 30, 40 :: 8 word]" by simp
  have h2: "4 * 0 + 3 < length [10, 20, 30, 40 :: 8 word]" by simp
  have p: "pixelAt [255, 255, 255, 255, 10, 20, 30, 40] 1 = (10, 20, 30, 40 :: 8 word)"
    "pixelAt [10, 20, 30, 40] 0 = (10, 20, 30, 40 :: 8 word)"
    by (simp_all add: pixelAt_def)
  from filters_deterministic_idempotence [of 1 "[255, 255, 255, 255, 10, 20, 30, 40]" Sepia 0] h1
  have a: "pixelAt (canvasFilterLoop Sepia [255, 255, 255, 255, 10, 20, 30, 40]) 1
       = filterPixel Sepia (pixelAt [255, 255, 255, 255, 10, 20, 30, 40] 1)" by blast
  from filters_deterministic_idempotence [of 0 "[10, 20, 30, 40]" Sepia 0] h2
  have b: "pixelAt (canvasFilterLoop Sepia [10, 20, 30, 40]) 0
       = filterPixel Sepia (pixelAt [10, 20, 30, 40] 0)" by blast
  from a b h1 show ?thesis unfolding p by blast
qed

section \<open>Properties of the resize panel\<close>

lemma fl_interval:
  assumes "0 \<le> x"
  shows "x * (1 - 1 / 2 ^ 53) \<le> fl x" and "fl x \<le> x * (1 + 1 / 2 ^ 53)"
proof -
  define y where "y = x / 2 ^ 53"
  have e: "\<bar>fl x - x\<bar> \<le> y" using fl_rel_error [of x] assms by (simp add: y_def)
  have eq: "x * (1 - 1 / 2 ^ 53) = x - y" "x * (1 + 1 / 2 ^ 53) = x + y"
    by (simp_all add: algebra_simps y_def)
  from e have "x - y \<le> fl x" "fl x \<le> x + y" by linarith+
  then show "x * (1 - 1 / 2 ^ 53) \<le> fl x" and "fl x \<le> x * (1 + 1 / 2 ^ 53)"
    by (simp_all only: eq)
qed

lemma recip_bounds:
  fixes u :: rat
  assumes "0 \<le> u" and "u \<le> 1 / 2"
  shows "1 / (1 - u) \<le> 1 + 2 * u" and "1 - u \<le> 1 / (1 + u)"
proof -
  have "0 \<le> u * (1 - 2 * u)" using assms by (intro mult_nonneg_nonneg) simp_all
  moreover have "(1 + 2 * u) * (1 - u) = 1 + u * (1 - 2 * u)" by (simp add: algebra_simps)
  ultimately have "1 \<le> (1 + 2 * u) * (1 - u)" by simp
  moreover have "0 < 1 - u" using assms by simp
  ultimately show "1 / (1 - u) \<le> 1 + 2 * u" by (simp add: pos_divide_le_eq)
  have "0 \<le> u * u" using assms by simp
  moreover have "(1 - u) * (1 + u) = 1 - u * u" by (simp add: algebra_simps)
  ultimately have "(1 - u) * (1 + u) \<le> 1" by simp
  moreover have "0 < 1 + u" using assms by simp
  ultimately show "1 - u \<le> 1 / (1 + u)" by (simp add: pos_le_divide_eq)
qed

lemma ratio_div_error:
  fixes r W :: rat
  assumes "0 < r" and "0 \<le> W"
  shows "\<bar>fl (W / fl r) - W / r\<bar> \<le> 4 * (W / r) / 2 ^ 53"
proof -
  define u :: rat where "u = 1 / 2 ^ 53"
  define a where "a = fl r"
  define X where "X = W / r"
  have u: "0 \<le> u" "u \<le> 1 / 2" "0 < 1 - u" "0 < 1 + u" by (simp_all add: u_def)
  have X: "0 \<le> X" using assms by (simp add: X_def)
  have a_lo: "r * (1 - u) \<le> a" and a_hi: "a \<le> r * (1 + u)"
    using fl_interval [of r] assms(1) by (simp_all add: a_def u_def)
  have lo_pos: "0 < r * (1 - u)" using assms(1) u by simp
  then have a_pos: "0 < a" using a_lo by linarith
  have "W / a \<le> W / (r * (1 - u))" using assms(2) a_lo lo_pos by (intro divide_left_mono) simp_all
  also have "\<dots> = X * (1 / (1 - u))" by (simp add: X_def)
  also have "\<dots> \<le> X * (1 + 2 * u)" using X recip_bounds(1) [OF u(1,2)] by (rule mult_left_mono [rotated])
  finally have q_hi: "W / a \<le> X * (1 + 2 * u)" .
  have "X * (1 - u) \<le> X * (1 / (1 + u))" using X recip_bounds(2) [OF u(1,2)] by (rule mult_left_mono [rotated])
  also have "\<dots> = W / (r * (1 + u))" by (simp add: X_def)
  also have "\<dots> \<le> W / a" using assms(2) a_hi a_pos by (intro divide_left_mono) (simp_all add: lo_pos assms(1) u)
  finally have q_lo: "X * (1 - u) \<le> W / a" .
  have Wa: "0 \<le> W / a" using assms(2) a_pos by simp
  have f_lo: "W / a * (1 - u) \<le> fl (W / a)" and f_hi: "fl (W / a) \<le> W / a * (1 + u)"
    using fl_interval [OF Wa] by (simp_all add: u_def)
  have "fl (W / a) \<le> X * (1 + 2 * u) * (1 + u)"
    using f_hi mult_right_mono [OF q_hi, of "1 + u"] u by linarith
  also have "X * (1 + 2 * u) * (1 + u) = X + X * u * (3 + 2 * u)" by (simp add: algebra_simps)
  also have "X * u * (3 + 2 * u) \<le> X * u * 4" using X u by (intro mult_left_mono) simp_all
  finally have hi: "fl (W / a) \<le> X + X * u * 4" by simp
  have "X * (1 - u) * (1 - u) \<le> fl (W / a)"
    using f_lo mult_right_mono [OF q_lo, of "1 - u"] u by linarith
  moreover have "X * (1 - u) * (1 - u) = X - X * u * (2 - u)" by (simp add: algebra_simps)
  moreover have "X * u * (2 - u) \<le> X * u * 4" using X u by (intro mult_left_mono) simp_all
  ultimately have lo: "X - X * u * 4 \<le> fl (W / a)" by linarith
  have "X * u * 4 = 4 * (W / r) / 2 ^ 53" by (simp add: X_def u_def)
  with lo hi show ?thesis unfolding a_def X_def by linarith
qed

lemma ratio_mul_error:
  fixes r H :: rat
  assumes "0 < r" and "0 \<le> H"
  shows "\<bar>fl (H * fl r) - H * r\<bar> \<le> 4 * (H * r) / 2 ^ 53"
proof -
  define u :: rat where "u = 1 / 2 ^ 53"
  define a where "a = fl r"
  define Y where "Y = H * r"
  have u: "0 \<le> u" "u \<le> 1 / 2" "0 < 1 - u" "0 < 1 + u" by (simp_all add: u_def)
  have Y: "0 \<le> Y" using assms by (simp add: Y_def)
  have a_lo: "r * (1 - u) \<le> a" and a_hi: "a \<le> r * (1 + u)"
    using fl_interval [of r] assms(1) by (simp_all add: a_def u_def)
  have "0 < r * (1 - u)" using assms(1) u by simp
  then have a_pos: "0 < a" using a_lo by linarith
  have p_hi: "H * a \<le> Y * (1 + u)"
    using mult_left_mono [OF a_hi assms(2)] by (simp add: Y_def algebra_simps)
  have p_lo: "Y * (1 - u) \<le> H * a"
    using mult_left_mono [OF a_lo assms(2)] by (simp add: Y_def algebra_simps)
  have Ha: "0 \<le> H * a" using assms(2) a_pos by simp
  have f_lo: "H * a * (1 - u) \<le> fl (H * a)" and f_hi: "fl (H * a) \<le> H * a * (1 + u)"
    using fl_interval [OF Ha] by (simp_all add: u_def)
  have "fl (H * a) \<le> Y * (1 + u) * (1 + u)"
    using f_hi mult_right_mono [OF p_hi, of "1 + u"] u by linarith
  also have "Y * (1 + u) * (1 + u) = Y + Y * u * (2 + u)" by (simp add: algebra_simps)
  also have "Y * u * (2 + u) \<le> Y * u * 4" using Y u by (intro mult_left_mono) simp_all
  finally have hi: "fl (H * a) \<le> Y + Y * u * 4" by simp
  have "Y * (1 - u) * (1 - u) \<le> fl (H * a)"
    using f_lo mult_right_mono [OF p_lo, of "1 - u"] u by linarith
  moreover have "Y * (1 - u) * (1 - u) = Y - Y * u * (2 - u)" by (simp add: algebra_simps)
  moreover have "Y * u * (2 - u) \<le> Y * u * 4" using Y u by (intro mult_left_mono) simp_all
  ultimately have lo: "Y - Y * u * 4 \<le> fl (H * a)" by linarith
  have "Y * u * 4 = 4 * (H * r) / 2 ^ 53" by (simp add: Y_def u_def)
  with lo hi show ?thesis unfolding a_def Y_def by linarith
qed

lemma round_near_ratio:
  fixes m d :: nat and q :: rat
  assumes "0 < d" and "m < 2 ^ 50"
    and "\<bar>q - of_nat m / of_nat d\<bar> \<le> 4 * (of_nat m / of_nat d) / 2 ^ 53"
  shows "\<bar>of_int (mathRound q) - of_nat m / of_nat d\<bar> \<le> (1 / 2 :: rat)"
proof -
  define h where "h = mathRound q"
  define D :: rat where "D = of_nat d"
  define M :: rat where "M = of_nat m"
  define X where "X = M / D"
  define e where "e = 4 * X / 2 ^ 53"
  have D: "0 < D" using assms(1) by (simp add: D_def)
  have XD: "X * D = M" using D by (simp add: X_def)
  have hq: "of_int h \<le> q + 1 / 2" "q + 1 / 2 < of_int h + 1"
    unfolding h_def mathRound_def by linarith+
  have q: "\<bar>q - X\<bar> \<le> e" using assms(3) by (simp add: X_def M_def D_def e_def)
  have "(of_nat m :: rat) < of_nat (2 ^ 50)" using assms(2) by (simp only: of_nat_less_iff)
  then have "M < 2 ^ 50" by (simp add: M_def)
  then have "4 * M / 2 ^ 53 < 1 / 2" by simp
  moreover have "e * D = 4 * M / 2 ^ 53" using XD by (simp add: e_def algebra_simps)
  ultimately have eD: "e * D < 1 / 2" by simp
  have up: "of_int h - X \<le> 1 / 2 + e" and dn: "X - of_int h \<le> 1 / 2 + e"
    using hq q by linarith+
  have "(of_int h - X) * D \<le> (1 / 2 + e) * D" using up D by (intro mult_right_mono) simp_all
  moreover have "(of_int h - X) * D = of_int h * D - M" using XD by (simp add: algebra_simps)
  moreover have "(1 / 2 + e) * D = D / 2 + e * D" by (simp add: algebra_simps)
  ultimately have 1: "2 * (of_int h * D) - 2 * M < D + 1" using eD by linarith
  have "(X - of_int h) * D \<le> (1 / 2 + e) * D" using dn D by (intro mult_right_mono) simp_all
  moreover have "(X - of_int h) * D = M - of_int h * D" using XD by (simp add: algebra_simps)
  moreover have "(1 / 2 + e) * D = D / 2 + e * D" by (simp add: algebra_simps)
  ultimately have 2: "2 * M - 2 * (of_int h * D) < D + 1" using eD by linarith
  have "(of_int (2 * (h * int d) - 2 * int m) :: rat) < of_int (int d + 1)"
    "(of_int (2 * int m - 2 * (h * int d)) :: rat) < of_int (int d + 1)"
    using 1 2 by (simp_all add: D_def M_def)
  then have "2 * (h * int d) - 2 * int m < int d + 1" "2 * int m - 2 * (h * int d) < int d + 1"
    by (simp_all only: of_int_less_iff)
  then have "2 * (h * int d) - 2 * int m \<le> int d" "2 * int m - 2 * (h * int d) \<le> int d"
    by simp_all
  then have "(of_int (2 * (h * int d) - 2 * int m) :: rat) \<le> of_int (int d)"
    "(of_int (2 * int m - 2 * (h * int d)) :: rat) \<le> of_int (int d)"
    by (simp_all only: of_int_le_iff)
  then have 3: "2 * (of_int h * D) - 2 * M \<le> D" "2 * M - 2 * (of_int h * D) \<le> D"
    by (simp_all add: D_def M_def)
  have "(of_int h - X) * D \<le> (1 / 2) * D" "(X - of_int h) * D \<le> (1 / 2) * D"
    using 3 XD by (simp_all add: algebra_simps)
  then have "of_int h - X \<le> 1 / 2" "X - of_int h \<le> 1 / 2"
    using D by (simp_all only: mult_le_cancel_right_pos)
  then show ?thesis unfolding h_def X_def M_def D_def by linarith
qed

lemma parseInt_nonempty: "parseInt v = Some x \<Longrightarrow> v \<noteq> []"
  by (auto simp: parseInt_def Let_def)

text \<open>
  Claim C9. Let the lock be on, let the original image have positive width and height, and
  let the text entered parse to a positive integer \<open>n\<close>. Entering it as the width keeps the
  text in the width field and sets the height field to the decimal form of
  \<open>Math.round(n / (originalWidth / originalHeight))\<close>; entering it as the height keeps the text
  in the height field and sets the width field to the decimal form of
  \<open>Math.round(n * (originalWidth / originalHeight))\<close>, both computed in binary64 arithmetic.
  The integer so computed is a nearest integer to the exact quotient (respectively product),
  so the original aspect ratio is preserved up to rounding. The recomputed field is stated for
  sizes with \<open>n * originalHeight < 2\<^sup>5\<^sup>0\<close> (respectively \<open>n * originalWidth < 2\<^sup>5\<^sup>0\<close>), far above
  any image size.
\<close>

theorem aspect_lock_resize:
  fixes originalWidth originalHeight n :: nat
  assumes "isLocked st" and "0 < originalWidth" and "0 < originalHeight"
    and "parseInt v = Some (of_nat n)" and "0 < n"
  shows "width (handleWidthChange originalWidth originalHeight v st) = v
       \<and> (n * originalHeight < 2 ^ 50 \<longrightarrow>
            height (handleWidthChange originalWidth originalHeight v st)
              = numberToString (mathRound (fdiv (of_nat n)
                  (fdiv (of_nat originalWidth) (of_nat originalHeight))))
            \<and> \<bar>of_int (mathRound (fdiv (of_nat n)
                  (fdiv (of_nat originalWidth) (of_nat originalHeight))))
                - of_nat n / (of_nat originalWidth / of_nat originalHeight)\<bar> \<le> (1 / 2 :: rat))
       \<and> height (handleHeightChange originalWidth originalHeight v st) = v
       \<and> (n * originalWidth < 2 ^ 50 \<longrightarrow>
            width (handleHeightChange originalWidth originalHeight v st)
              = numberToString (mathRound (fmul (of_nat n)
                  (fdiv (of_nat originalWidth) (of_nat originalHeight))))
            \<and> \<bar>of_int (mathRound (fmul (of_nat n)
                  (fdiv (of_nat originalWidth) (of_nat originalHeight))))
                - of_nat n * (of_nat originalWidth / of_nat originalHeight)\<bar> \<le> (1 / 2 :: rat))"
proof -
  define r :: rat where "r = of_nat originalWidth / of_nat originalHeight"
  have r: "0 < r" using assms(2,3) by (simp add: r_def)
  have n0: "(0::rat) \<le> of_nat n" "(0::rat) < of_nat n" using assms(5) by simp_all
  have ne: "v \<noteq> []" using assms(4) by (rule parseInt_nonempty)
  have ar: "aspectRatio originalWidth originalHeight = fl r"
    using assms(2,3) by (simp add: aspectRatio_def fdiv_def r_def)
  have 1: "width (handleWidthChange originalWidth originalHeight v st) = v"
    by (simp add: handleWidthChange_def Let_def split: option.splits)
  have 2: "height (handleWidthChange originalWidth originalHeight v st)
      = numberToString (mathRound (fdiv (of_nat n) (fl r)))"
    using assms(1,4) ne n0 by (simp add: handleWidthChange_def Let_def ar)
  have 4: "height (handleHeightChange originalWidth originalHeight v st) = v"
    by (simp add: handleHeightChange_def Let_def split: option.splits)
  have 5: "width (handleHeightChange originalWidth originalHeight v st)
      = numberToString (mathRound (fmul (of_nat n) (fl r)))"
    using assms(1,4) ne n0 by (simp add: handleHeightChange_def Let_def ar)
  have 3: "\<bar>of_int (mathRound (fdiv (of_nat n) (fl r))) - of_nat n / r\<bar> \<le> (1 / 2 :: rat)"
    if b: "n * originalHeight < 2 ^ 50"
  proof -
    have X: "of_nat n / r = (of_nat (n * originalHeight) :: rat) / of_nat originalWidth"
      by (simp add: r_def)
    have "\<bar>fl (of_nat n / fl r) - of_nat n / r\<bar> \<le> 4 * (of_nat n / r) / 2 ^ 53"
      using r n0(1) by (rule ratio_div_error)
    then show ?thesis
      unfolding fdiv_def X using assms(2) b by (intro round_near_ratio)
  qed
  have 6: "\<bar>of_int (mathRound (fmul (of_nat n) (fl r))) - of_nat n * r\<bar> \<le> (1 / 2 :: rat)"
    if b: "n * originalWidth < 2 ^ 50"
  proof -
    have Y: "of_nat n * r = (of_nat (n * originalWidth) :: rat) / of_nat originalHeight"
      by (simp add: r_def)
    have "\<bar>fl (of_nat n * fl r) - of_nat n * r\<bar> \<le> 4 * (of_nat n * r) / 2 ^ 53"
      using r n0(1) by (rule ratio_mul_error)
    then show ?thesis
      unfolding fmul_def Y using assms(3) b by (intro round_near_ratio)
  qed
  from 1 2 3 4 5 6 show ?thesis unfolding fdiv_def [of "of_nat originalWidth"] r_def [symmetric]
    by blast
qed

lemma parseInt_300: "parseInt (str ''300'') = Some (of_nat 300)"
proof -
  have "parseInt (str ''300'') = Some (fl (of_int 300))"
    by (simp add: parseInt_def str_def isWhiteSpace_def isDigit_def digitsValue_def Let_def)
  moreover have "fl (of_int 300) = of_int 300" by (rule fl_of_int) simp
  ultimately show ?thesis by simp
qed

lemma int_from_bound:
  fixes x :: rat
  assumes "\<bar>of_int h - x\<bar> \<le> 1 / 2" and "of_int k - 1 / 2 < x" and "x < of_int k + 1 / 2"
  shows "h = k"
proof -
  have "(of_int h :: rat) < of_int k + 1" "(of_int k :: rat) < of_int h + 1"
    using assms by linarith+
  then have "(of_int h :: rat) < of_int (k + 1)" "(of_int k :: rat) < of_int (h + 1)"
    by simp_all
  then have "h < k + 1" "k < h + 1" by (simp_all only: of_int_less_iff)
  then show ?thesis by simp
qed

lemma toString_samples: "numberToString 169 = str ''169''" "numberToString 533 = str ''533''"
  by (simp_all add: numberToString_def str_def)

theorem aspect_lock_resize_witness:
  "isLocked (initialPanel 1920 1080)
   \<and> parseInt (str ''300'') = Some (of_nat 300)
   \<and> width (handleWidthChange 1920 1080 (str ''300'') (initialPanel 1920 1080)) = str ''300''
   \<and> height (handleWidthChange 1920 1080 (str ''300'') (initialPanel 1920 1080)) = str ''169''
   \<and> height (handleHeightChange 1920 1080 (str ''300'') (initialPanel 1920 1080)) = str ''300''
   \<and> width (handleHeightChange 1920 1080 (str ''300'') (initialPanel 1920 1080)) = str ''533''"
proof -
  have l: "isLocked (initialPanel 1920 1080)" by (simp add: initialPanel_def)
  have p: "(0::nat) < 1920" "(0::nat) < 1080" "(0::nat) < 300" by simp_all
  note t = aspect_lock_resize [OF l p(1) p(2) parseInt_300 p(3)]
  have b: "(300::nat) * 1080 < 2 ^ 50" "(300::nat) * 1920 < 2 ^ 50" by simp_all
  from t b have
    w: "\<bar>of_int (mathRound (fdiv (of_nat 300) (fdiv (of_nat 1920) (of_nat 1080))))
        - of_nat 300 / (of_nat 1920 / of_nat 1080)\<bar> \<le> (1 / 2 :: rat)"
    and h: "\<bar>of_int (mathRound (fmul (of_nat 300) (fdiv (of_nat 1920) (of_nat 1080))))
        - of_nat 300 * (of_nat 1920 / of_nat 1080)\<bar> \<le> (1 / 2 :: rat)"
    by blast+
  have rw: "mathRound (fdiv (of_nat 300) (fdiv (of_nat 1920) (of_nat 1080))) = 169"
    using w by (rule int_from_bound) simp_all
  have rh: "mathRound (fmul (of_nat 300) (fdiv (of_nat 1920) (of_nat 1080))) = 533"
    using h by (rule int_from_bound) simp_all
  from t b l parseInt_300 show ?thesis by (simp only: rw rh toString_samples simp_thms)
qed

end
